theory Spec2Isabelle
  imports Complex_Main "HOL-Library.AList"
begin

section \<open>Data model of the WebSocket service\<close>

text \<open>
  The service (class \<open>WebSocketService\<close>) keeps two JavaScript maps:
  \<open>clients : Map<WebSocket, ClientInfo>\<close> and \<open>sessions : Map<sessionId, Set<WebSocket>>\<close>.
  A \<open>Map\<close> is an association list in insertion order (\<open>AList.update\<close> is \<open>Map.set\<close>,
  \<open>AList.delete\<close> is \<open>Map.delete\<close>, \<open>map_of\<close> is \<open>Map.get\<close>); a \<open>Set\<close> is a list in
  insertion order. A socket object is known by its identity, a natural number.
\<close>

type_synonym ws = nat

datatype json =
    JNull
  | JBool bool
  | JNum rat
  | JStr string
  | JArr "json list"
  | JObj "(string \<times> json) list"

text \<open>
  What \<open>sendToClient\<close> is given: a string, sent as it is, or an object, sent as its
  JSON text (\<open>typeof data === 'string' ? data : JSON.stringify(data)\<close>). The text of an
  object stands for itself.
\<close>

datatype data = Str string | Obj json

record clientInfo =
  sessionId :: string
  connectedAt :: nat
  ip :: string
  isAlive :: bool
  metadata :: "(string \<times> json) list"

record request =
  remoteAddress :: string
  url :: string
  headers :: "(string \<times> string) list"

text \<open>
  The payload of an inbound transport message. The service imports \<open>WebSocketServer\<close> by
  name from \<open>ws\<close>, which that library exports from its version 8 on; from that version
  on the \<open>message\<close> listener of a socket is given the payload of every frame, of a text
  frame too, as a \<open>Buffer\<close>. A buffer is the list of its bytes, read as characters
  (\<open>data.toString()\<close>).
\<close>

type_synonym buffer = string

text \<open>The events of the service's own emitter (\<open>this.emit(name, data)\<close>).\<close>

datatype event =
    Json_message ws clientInfo json
  | Text_message ws clientInfo string
  | Binary_message ws clientInfo buffer
  | Session_ended string
  | Client_disconnected string clientInfo nat string

text \<open>
  The calls the service makes on the outside world, in the order it makes them:
  \<open>ws.send\<close>, \<open>ws.ping\<close>, \<open>ws.terminate\<close>, \<open>this.emit\<close>, \<open>redisSub.subscribe\<close> and the
  console (a log line is recorded by its fixed text; the values printed in it are left out);
  and the three calls of the frame-ingestion handler: \<open>StorageService.saveFrame\<close> (the
  encoded body, the file name, the session), \<open>updateSessionFrameCount\<close> (the session) and
  \<open>addInferenceJob\<close> (the frame, its storage key, the session).
\<close>

datatype action =
    Send ws data
  | Ping ws
  | Terminate ws
  | Emit event
  | Subscribe "string list"
  | Log string
  | SaveFrame string string string
  | UpdateSessionFrameCount string
  | AddInferenceJob nat string string

record service =
  clients :: "(ws \<times> clientInfo) list"
  sessions :: "(string \<times> ws list) list"

text \<open>
  What the service reads from the transport: the \<open>readyState\<close> of every socket
  (1 is OPEN), and whether the write to it raises: \<open>sendToClient\<close> puts
  \<open>JSON.stringify\<close> and \<open>ws.send\<close> into a \<open>try\<close> whose \<open>catch\<close> logs the error and
  returns \<open>false\<close>.
\<close>

record env =
  readyState :: "ws \<Rightarrow> nat"
  send_raises :: "ws \<Rightarrow> bool"

definition new_service :: service where
  "new_service = \<lparr>clients = [], sessions = []\<rparr>"

text \<open>\<open>Set.add\<close> and \<open>Set.delete\<close> on the list of a set's members.\<close>

definition set_add :: "'a \<Rightarrow> 'a list \<Rightarrow> 'a list" where
  "set_add x xs = (if x \<in> set xs then xs else xs @ [x])"

definition set_delete :: "'a \<Rightarrow> 'a list \<Rightarrow> 'a list" where
  "set_delete x xs = removeAll x xs"

section \<open>Delivery\<close>

definition sendToClient :: "env \<Rightarrow> ws \<Rightarrow> data \<Rightarrow> bool \<times> action list" where
  "sendToClient e w d =
     (if readyState e w \<noteq> 1 then (False, [])
      else if send_raises e w then (False, [Log ''[WebSocketService] Send error:''])
      else (True, [Send w d]))"

text \<open>The \<open>forEach\<close> of \<open>sendToSession\<close>, with its counter \<open>sent\<close>.\<close>

fun send_each :: "env \<Rightarrow> data \<Rightarrow> ws list \<Rightarrow> nat \<Rightarrow> action list \<Rightarrow> nat \<times> action list" where
  "send_each e d [] sent acts = (sent, acts)"
| "send_each e d (w # rest) sent acts =
     (case sendToClient e w d of
        (ok, a) \<Rightarrow> send_each e d rest (if ok then sent + 1 else sent) (acts @ a))"

definition sendToSession :: "env \<Rightarrow> service \<Rightarrow> string \<Rightarrow> data \<Rightarrow> nat \<times> action list" where
  "sendToSession e st sid d =
     (case map_of (sessions st) sid of
        None \<Rightarrow> (0, [])
      | Some sessionClients \<Rightarrow> send_each e d sessionClients 0 [])"

definition sendError :: "env \<Rightarrow> ws \<Rightarrow> string \<Rightarrow> action list" where
  "sendError e w message =
     snd (sendToClient e w
       (Obj (JObj [(''type'', JStr ''error''), (''code'', JStr ''ERROR''),
                   (''message'', JStr message)])))"

section \<open>Connection life cycle\<close>

text \<open>
  \<open>handleConnection(ws, request)\<close>; \<open>uuid\<close> is what \<open>uuidv4()\<close> returns and \<open>now\<close> what
  \<open>Date.now()\<close> returns.
\<close>

definition connection_event :: "string \<Rightarrow> data" where
  "connection_event sid =
     Obj (JObj [(''type'', JStr ''connection''), (''sessionId'', JStr sid),
                (''message'', JStr ''Connected successfully'')])"

definition handleConnection ::
  "env \<Rightarrow> service \<Rightarrow> ws \<Rightarrow> request \<Rightarrow> string \<Rightarrow> nat \<Rightarrow> service \<times> action list" where
  "handleConnection e st w req uuid now =
     (let sid = uuid;
          info = \<lparr>sessionId = sid, connectedAt = now, ip = remoteAddress req,
                  isAlive = True, metadata = []\<rparr>;
          clients1 = AList.update w info (clients st);
          sessions1 = (if map_of (sessions st) sid = None
                       then AList.update sid [] (sessions st) else sessions st);
          sessions2 = (case map_of sessions1 sid of
                         None \<Rightarrow> sessions1
                       | Some sc \<Rightarrow> AList.update sid (set_add w sc) sessions1)
      in (st\<lparr>clients := clients1, sessions := sessions2\<rparr>,
          Log ''[WebSocketService] Client connected: ''
            # snd (sendToClient e w (connection_event sid))))"

definition handlePong :: "service \<Rightarrow> ws \<Rightarrow> service" where
  "handlePong st w =
     (case map_of (clients st) w of
        None \<Rightarrow> st
      | Some info \<Rightarrow> st\<lparr>clients := AList.update w (info\<lparr>isAlive := True\<rparr>) (clients st)\<rparr>)"

definition handleClose :: "service \<Rightarrow> ws \<Rightarrow> nat \<Rightarrow> string \<Rightarrow> service \<times> action list" where
  "handleClose st w code reason =
     (case map_of (clients st) w of
        None \<Rightarrow> (st, [])
      | Some info \<Rightarrow>
          (let sid = sessionId info;
               (sessions1, ended) =
                  (case map_of (sessions st) sid of
                     None \<Rightarrow> (sessions st, [])
                   | Some sc \<Rightarrow>
                       (let sc1 = set_delete w sc
                        in if length sc1 = 0
                           then (AList.delete sid (sessions st), [Emit (Session_ended sid)])
                           else (AList.update sid sc1 (sessions st), [])));
               clients1 = AList.delete w (clients st)
           in (st\<lparr>clients := clients1, sessions := sessions1\<rparr>,
               ended @ [Log ''[WebSocketService] Client disconnected: '',
                        Log ''[WebSocketService] Active connections: '',
                        Emit (Client_disconnected sid info code reason)])))"

section \<open>Heartbeat\<close>

definition heartbeat_interval_ms :: nat where
  "heartbeat_interval_ms = 30000"

text \<open>
  The callback of \<open>setInterval\<close> in \<open>startHeartbeat\<close>: one pass of \<open>clients.forEach\<close>.
  Since \<open>clientInfo\<close> is a shared object, the assignment \<open>isAlive = false\<close> changes the
  entry of the map.
\<close>

fun heartbeat_each :: "(ws \<times> clientInfo) list \<Rightarrow> (ws \<times> clientInfo) list \<times> action list" where
  "heartbeat_each [] = ([], [])"
| "heartbeat_each ((w, info) # rest) =
     (case heartbeat_each rest of
        (rest1, acts) \<Rightarrow>
          if \<not> isAlive info
          then ((w, info) # rest1,
                Log ''[WebSocketService] Terminating dead connection: ''
                  # Terminate w # acts)
          else ((w, info\<lparr>isAlive := False\<rparr>) # rest1, Ping w # acts))"

definition heartbeat :: "service \<Rightarrow> service \<times> action list" where
  "heartbeat st =
     (case heartbeat_each (clients st) of (cs, acts) \<Rightarrow> (st\<lparr>clients := cs\<rparr>, acts))"

text \<open>The \<open>n\<close>-th run of the callback (from 0) happens \<open>n + 1\<close> intervals after the start.\<close>

definition tick_time :: "nat \<Rightarrow> nat" where
  "tick_time n = (n + 1) * heartbeat_interval_ms"


section \<open>Inbound messages\<close>

text \<open>
  \<open>handleMessage(ws, data)\<close>. The test \<open>typeof data === 'string'\<close> is false of a
  \<open>Buffer\<close> (its \<open>typeof\<close> is \<open>'object'\<close>), so of every payload: the branch that calls
  \<open>JSON.parse\<close> and emits \<open>json_message\<close> or \<open>text_message\<close> is never entered, and what
  is left is the \<open>else\<close> branch. Nothing in the outer \<open>try\<close> raises (\<open>emit\<close> catches what
  its handlers raise), so its \<open>catch\<close> has no branch here.
\<close>

definition handleMessage :: "service \<Rightarrow> ws \<Rightarrow> buffer \<Rightarrow> action list" where
  "handleMessage st w d =
     (case map_of (clients st) w of
        None \<Rightarrow> []
      | Some info \<Rightarrow> [Emit (Binary_message w info d)])"

text \<open>
  Reading a property of a parsed JSON value: \<open>None\<close> is \<open>undefined\<close>. (Reading a property
  of \<open>null\<close> raises; the callers test for \<open>JNull\<close> first.)
\<close>

fun field :: "string \<Rightarrow> json \<Rightarrow> json option" where
  "field k (JObj fs) = map_of fs k"
| "field k _ = None"

fun truthy :: "json \<Rightarrow> bool" where
  "truthy JNull = False"
| "truthy (JBool b) = b"
| "truthy (JNum n) = (n \<noteq> 0)"
| "truthy (JStr s) = (s \<noteq> [])"
| "truthy (JArr _) = True"
| "truthy (JObj _) = True"

text \<open>
  What the application reads besides the message: \<open>Date.now()\<close>, the answer of
  \<open>getSessionStats\<close> (which is \<open>null\<close> when the query fails) and, for a frame, the file
  name made of \<open>Date.now()\<close> and \<open>uuidv4()\<close>, the answer of \<open>StorageService.saveFrame\<close>
  to the encoded body, the file name and the session (\<open>frameId\<close>, \<open>s3Key\<close> and \<open>size\<close>, or
  the error it raises: the image cannot be read, the object store or the database is
  down), and the error that \<open>addInferenceJob\<close> raises, if it does.
  \<open>updateSessionFrameCount\<close> catches what it raises.
\<close>

record app_env =
  date_now :: nat
  getSessionStats :: "string \<Rightarrow> json"
  frame_filename :: string
  saveFrame :: "string \<Rightarrow> string \<Rightarrow> string \<Rightarrow> string + nat \<times> string \<times> nat"
  addInferenceJob_error :: "string option"

definition message_error :: "env \<Rightarrow> ws \<Rightarrow> action list" where
  "message_error e w =
     Log ''[WebSocket] Message handling error:'' # sendError e w ''Failed to process message''"

text \<open>
  The handler that \<open>setupWebSocketHandlers\<close> registers for \<open>json_message\<close>: the
  destructuring \<open>const { type, data } = message\<close>, then the \<open>switch (type)\<close>, inside a
  \<open>try\<close> whose \<open>catch\<close> is \<open>message_error\<close>.
\<close>

definition on_json_message ::
  "env \<Rightarrow> app_env \<Rightarrow> ws \<Rightarrow> clientInfo \<Rightarrow> json \<Rightarrow> action list" where
  "on_json_message e app w info message =
     (if message = JNull then message_error e w
      else
        (let type = field ''type'' message; data = field ''data'' message
         in if type = Some (JStr ''ping'') then
              snd (sendToClient e w
                (Obj (JObj [(''type'', JStr ''pong''),
                            (''timestamp'', JNum (of_nat (date_now app)))])))
            else if type = Some (JStr ''get_stats'') then
              snd (sendToClient e w
                (Obj (JObj [(''type'', JStr ''stats''),
                            (''data'', getSessionStats app (sessionId info))])))
            else if type = Some (JStr ''request_blink_detection'') then
              (case data of
                 None \<Rightarrow> message_error e w
               | Some JNull \<Rightarrow> message_error e w
               | Some d \<Rightarrow>
                   (case field ''frameId'' d of
                      None \<Rightarrow> []
                    | Some frameId \<Rightarrow>
                        if truthy frameId
                        then snd (sendToClient e w
                               (Obj (JObj [(''type'', JStr ''blink_detection_queued''),
                                           (''frameId'', frameId)])))
                        else []))
            else [Log ''[WebSocket] Unknown message type: '']))"

definition on_text_message :: "env \<Rightarrow> ws \<Rightarrow> clientInfo \<Rightarrow> string \<Rightarrow> action list" where
  "on_text_message e w info s =
     Log ''[WebSocket] Text message from '' #
     snd (sendToClient e w
       (Obj (JObj [(''type'', JStr ''echo''), (''message'', JStr ''Message received''),
                   (''length'', JNum (of_nat (length s)))])))"

text \<open>\<open>text.split(',')\<close>: the pieces of a text between its commas.\<close>

fun split_comma :: "string \<Rightarrow> string list" where
  "split_comma [] = [[]]"
| "split_comma (c # cs) =
     (if c = CHR '','' then [] # split_comma cs
      else (case split_comma cs of
              [] \<Rightarrow> [[c]]
            | piece # pieces \<Rightarrow> (c # piece) # pieces))"

text \<open>
  \<open>const [header, encoded] = text.split(',')\<close>: the second piece, \<open>None\<close> where there is
  none (\<open>undefined\<close>).
\<close>

definition encoded_part :: "buffer \<Rightarrow> string option" where
  "encoded_part d =
     (case split_comma d of
        header # encoded # rest \<Rightarrow> Some encoded
      | _ \<Rightarrow> None)"

text \<open>The acknowledgement of a frame.\<close>

definition frame_received :: "app_env \<Rightarrow> clientInfo \<Rightarrow> nat \<Rightarrow> nat \<Rightarrow> data" where
  "frame_received app info fid bytes =
     Obj (JObj [(''type'', JStr ''frame_received''),
                (''frameId'', JNum (of_nat fid)),
                (''sessionId'', JStr (sessionId info)),
                (''filename'', JStr (frame_filename app)),
                (''size'', JNum (of_nat bytes)),
                (''queuedForInference'', JBool True)])"

definition frame_error :: "env \<Rightarrow> ws \<Rightarrow> action list" where
  "frame_error e w =
     Log ''[WebSocket] Frame processing error:'' # sendError e w ''Failed to process frame''"

text \<open>
  The frame-ingestion handler, which \<open>setupWebSocketHandlers\<close> registers for
  \<open>binary_message\<close>: \<open>!encoded\<close> holds of \<open>undefined\<close> and of the empty string; the body is
  inside a \<open>try\<close> whose \<open>catch\<close> is \<open>frame_error\<close>.
\<close>

definition on_binary_message ::
  "env \<Rightarrow> app_env \<Rightarrow> ws \<Rightarrow> clientInfo \<Rightarrow> buffer \<Rightarrow> action list" where
  "on_binary_message e app w info d =
     (case encoded_part d of
        None \<Rightarrow> sendError e w ''Invalid frame format''
      | Some encoded \<Rightarrow>
          if encoded = [] then sendError e w ''Invalid frame format''
          else
            SaveFrame encoded (frame_filename app) (sessionId info) #
            (case saveFrame app encoded (frame_filename app) (sessionId info) of
               Inl err \<Rightarrow> frame_error e w
             | Inr (fid, key, bytes) \<Rightarrow>
                 UpdateSessionFrameCount (sessionId info) #
                 AddInferenceJob fid key (sessionId info) #
                 (case addInferenceJob_error app of
                    Some err \<Rightarrow> frame_error e w
                  | None \<Rightarrow> snd (sendToClient e w (frame_received app info fid bytes)))))"

text \<open>
  \<open>emit\<close> with the handlers of \<open>setupWebSocketHandlers\<close> in place: one handler for each of
  \<open>binary_message\<close>, \<open>json_message\<close> and \<open>text_message\<close>; an event without a handler is
  kept as it is.
\<close>

fun run_handler :: "env \<Rightarrow> app_env \<Rightarrow> action \<Rightarrow> action list" where
  "run_handler e app (Emit (Binary_message w info d)) = on_binary_message e app w info d"
| "run_handler e app (Emit (Json_message w info message)) = on_json_message e app w info message"
| "run_handler e app (Emit (Text_message w info s)) = on_text_message e w info s"
| "run_handler e app a = [a]"

text \<open>What an inbound message of a socket sets off: \<open>handleMessage\<close> and the handlers.\<close>

definition dispatch :: "env \<Rightarrow> app_env \<Rightarrow> service \<Rightarrow> ws \<Rightarrow> buffer \<Rightarrow> action list" where
  "dispatch e app st w d = concat (map (run_handler e app) (handleMessage st w d))"

section \<open>Start-up and the Redis subscription\<close>

text \<open>
  \<open>setupRedisSubscriptions\<close>: the \<open>switch (channel)\<close> of the message handler names the
  method that serves each channel (\<open>None\<close> is the \<open>default\<close> branch, which logs an
  unknown channel); the subscription is one call of \<open>redisSub.subscribe\<close>, whose promise
  resolves (\<open>None\<close>) or rejects with an error.
\<close>

definition channel_handler :: "string \<Rightarrow> string option" where
  "channel_handler channel =
     (if channel = ''blink-updates'' then Some ''handleBlinkUpdate''
      else if channel = ''sensor-updates'' then Some ''handleSensorUpdate''
      else if channel = ''inference-results'' then Some ''handleInferenceResults''
      else if channel = ''broadcast'' then Some ''broadcast''
      else None)"

definition subscribed_channels :: "string list" where
  "subscribed_channels =
     [''blink-updates'', ''sensor-updates'', ''inference-results'', ''broadcast'']"

definition setupRedisSubscriptions :: "string option \<Rightarrow> action list" where
  "setupRedisSubscriptions subscribe_error =
     Subscribe subscribed_channels #
     (case subscribe_error of
        None \<Rightarrow> [Log ''[WebSocketService] Subscribed to Redis channels'']
      | Some err \<Rightarrow> [Log ''[WebSocketService] Redis subscription error:''])"

text \<open>The constructor: empty maps and the subscription; \<open>initialize()\<close> then registers
  the handlers of the server and starts the heartbeat timer.\<close>

definition WebSocketService_new :: "string option \<Rightarrow> service \<times> action list" where
  "WebSocketService_new subscribe_error =
     (new_service, setupRedisSubscriptions subscribe_error)"

text \<open>
  \<open>startServer\<close> with \<open>initializeServices\<close> of the application: the database and the
  Redis ping abort the start (the error is raised again and \<open>startServer\<close> exits with
  code 1); the object store only warns.
\<close>

record startup_env =
  database_error :: "string option"
  s3_error :: "string option"
  redis_ping_error :: "string option"
  subscribe_error :: "string option"

datatype process = Listening service | Exited nat

definition initializeServices :: "startup_env \<Rightarrow> (string + service) \<times> action list" where
  "initializeServices se =
     (case database_error se of
        Some err \<Rightarrow> (Inl err, [Log ''[Initialization] Error:''])
      | None \<Rightarrow>
          (let s3 = (case s3_error se of
                       None \<Rightarrow> []
                     | Some err \<Rightarrow> [Log ''S3 initialization warning:''])
           in case redis_ping_error se of
                Some err \<Rightarrow> (Inl err, s3 @ [Log ''[Initialization] Error:''])
              | None \<Rightarrow>
                  (case WebSocketService_new (subscribe_error se) of
                     (svc, acts) \<Rightarrow>
                       (Inr svc, s3 @ acts @ [Log ''WebSocket Service ready'']))))"

definition startServer :: "startup_env \<Rightarrow> process \<times> action list" where
  "startServer se =
     (case initializeServices se of
        (Inl err, acts) \<Rightarrow> (Exited 1, acts @ [Log ''[Server] Failed to start:''])
      | (Inr svc, acts) \<Rightarrow> (Listening svc, acts @ [Log ''Server running'']))"

section \<open>The service as a machine\<close>

text \<open>What can happen to the service between two runs of the heartbeat, and at them.\<close>

datatype input =
    Connection ws request string nat
  | Message ws buffer
  | Pong ws
  | Close ws nat string
  | Tick

fun step :: "env \<Rightarrow> app_env \<Rightarrow> service \<Rightarrow> input \<Rightarrow> service \<times> action list" where
  "step e app st (Connection w req uuid now) = handleConnection e st w req uuid now"
| "step e app st (Message w d) = (st, dispatch e app st w d)"
| "step e app st (Pong w) = (handlePong st w, [])"
| "step e app st (Close w code reason) = handleClose st w code reason"
| "step e app st Tick = heartbeat st"

fun run :: "env \<Rightarrow> app_env \<Rightarrow> service \<Rightarrow> input list \<Rightarrow> service \<times> action list" where
  "run e app st [] = (st, [])"
| "run e app st (i # rest) =
     (case step e app st i of
        (st1, a1) \<Rightarrow> (case run e app st1 rest of (st2, a2) \<Rightarrow> (st2, a1 @ a2)))"


section \<open>Consistency of the two maps\<close>

text \<open>
  The keys of a \<open>Map\<close> and the members of a \<open>Set\<close> are unique; every registered socket is
  a member of the set of its session; every member of a session's set is registered
  under that session; no stored set is empty.
\<close>

definition consistent :: "service \<Rightarrow> bool" where
  "consistent st \<longleftrightarrow>
     distinct (map fst (clients st)) \<and> distinct (map fst (sessions st)) \<and>
     (\<forall>(w, info) \<in> set (clients st).
        case map_of (sessions st) (sessionId info) of
          None \<Rightarrow> False | Some sc \<Rightarrow> w \<in> set sc) \<and>
     (\<forall>(sid, sc) \<in> set (sessions st).
        sc \<noteq> [] \<and> distinct sc \<and>
        (\<forall>w \<in> set sc. case map_of (clients st) w of
                          None \<Rightarrow> False | Some info \<Rightarrow> sessionId info = sid))"

text \<open>The same three properties, read on the maps themselves.\<close>

definition linked :: "(ws \<rightharpoonup> clientInfo) \<Rightarrow> (string \<rightharpoonup> ws list) \<Rightarrow> bool" where
  "linked cm sm \<longleftrightarrow>
     (\<forall>w info. cm w = Some info \<longrightarrow> (\<exists>sc. sm (sessionId info) = Some sc \<and> w \<in> set sc)) \<and>
     (\<forall>sid sc. sm sid = Some sc \<longrightarrow>
        sc \<noteq> [] \<and> distinct sc \<and>
        (\<forall>w \<in> set sc. \<exists>info. cm w = Some info \<and> sessionId info = sid))"

text \<open>A connection event always brings a socket object that is not registered yet.\<close>

fun fresh_socket :: "service \<Rightarrow> input \<Rightarrow> bool" where
  "fresh_socket st (Connection w req uuid now) = (w \<notin> fst ` set (clients st))"
| "fresh_socket st i = True"

fun fresh_sockets ::
  "env \<Rightarrow> app_env \<Rightarrow> service \<Rightarrow> input list \<Rightarrow> bool" where
  "fresh_sockets e app st [] = True"
| "fresh_sockets e app st (i # rest) =
     (fresh_socket st i \<and> fresh_sockets e app (fst (step e app st i)) rest)"

section \<open>The inference worker\<close>

type_synonym error = string

record prediction =
  pred_label :: "string option"
  pred_class :: "string option"
  pred_confidence :: "rat option"
  pred_score :: "rat option"

text \<open>
  What \<open>response.json()\<close> yields, as far as \<open>processFrame\<close> reads it: \<open>null\<close>, or an object
  with its \<open>error\<close> and \<open>predictions\<close> properties (\<open>None\<close> where absent).
\<close>

datatype response = Null_response | Response "string option" "prediction list option"

record row =
  frame_id :: nat
  emotion_label :: string
  emotion_confidence :: "rat option"
  redness_label :: string
  redness_confidence :: "rat option"
  processing_time_ms :: "int option"

record scores =
  emotionLabel :: string
  emotionConf :: "rat option"
  rednessLabel :: string
  rednessConf :: "rat option"

record job =
  frameId :: nat
  s3Key :: string
  job_sessionId :: "string option"

record job_result =
  success :: bool
  result_frameId :: nat
  inferenceId :: nat
  processingTime :: int
  results :: scores

text \<open>
  The world the worker writes to: the table \<open>inference_results\<close>, the \<open>processed\<close> flag of
  every row of \<open>frames\<close>, what was published on Redis, the progress reported to the
  queue, and the console.
\<close>

record world =
  inference_results :: "row list"
  frames :: "(nat \<times> bool) list"
  published :: "(string \<times> json) list"
  progress :: "nat list"
  console :: "string list"

text \<open>
  What one attempt meets: the answer of the scorer's HTTP call for a storage key and a
  model (\<open>Inl\<close> where \<open>getSignedUrlForFrame\<close>, \<open>fetch\<close> or \<open>response.json\<close> raises), which of
  the other awaited calls raise (\<open>None\<close>: none), and the readings of \<open>Date.now()\<close>.
\<close>

record attempt_env =
  scorer :: "string \<Rightarrow> string \<Rightarrow> error + response"
  updateProgress_error :: "nat \<Rightarrow> error option"
  query_error :: "error option"
  create_error :: "row \<Rightarrow> error option"
  update_error :: "error option"
  publish_error :: "error option"
  startTime :: int
  now_create :: int
  now_publish :: int
  now_return :: int
  now_sentinel :: int

definition runInference :: "attempt_env \<Rightarrow> string \<Rightarrow> string \<Rightarrow> response \<times> string list" where
  "runInference ae key modelId =
     (case scorer ae key modelId of
        Inr r \<Rightarrow> (r, [])
      | Inl err \<Rightarrow> (Response (Some err) None, [''[InferenceService] Error for model '']))"

text \<open>JavaScript's \<open>a || b\<close> on optional strings and numbers: the empty string and 0 are falsy.\<close>

definition or_string :: "string option \<Rightarrow> string option \<Rightarrow> string option" where
  "or_string a b = (case a of Some s \<Rightarrow> (if s \<noteq> [] then Some s else b) | None \<Rightarrow> b)"

definition or_number :: "rat option \<Rightarrow> rat option \<Rightarrow> rat option" where
  "or_number a b = (case a of Some x \<Rightarrow> (if x \<noteq> 0 then Some x else b) | None \<Rightarrow> b)"

text \<open>
  The label and confidence \<open>processFrame\<close> takes from one model's answer; reading
  \<open>predictions\<close> of \<open>null\<close> raises a \<open>TypeError\<close>.
\<close>

definition first_prediction :: "response \<Rightarrow> error + string \<times> rat option" where
  "first_prediction r =
     (case r of
        Null_response \<Rightarrow> Inl ''TypeError''
      | Response err None \<Rightarrow> Inr (''Unknown'', None)
      | Response err (Some []) \<Rightarrow> Inr (''Unknown'', None)
      | Response err (Some (pred # _)) \<Rightarrow>
          Inr (case or_string (or_string (pred_label pred) (pred_class pred)) (Some ''Unknown'') of
                 Some l \<Rightarrow> l | None \<Rightarrow> ''Unknown'',
               or_number (or_number (pred_confidence pred) (pred_score pred)) None))"

definition processFrame ::
  "attempt_env \<Rightarrow> nat \<Rightarrow> string \<Rightarrow> world \<Rightarrow> (error + scores) \<times> world" where
  "processFrame ae fid key w =
     (case (runInference ae key ''emotion-esmd2/2'',
            runInference ae key ''redness-of-eyes-aju4x/1'') of
        ((emotionResult, log1), (rednessResult, log2)) \<Rightarrow>
          (let w1 = w\<lparr>console := console w @ log1 @ log2\<rparr>;
               failed = (\<lambda>err. (Inl err,
                           w1\<lparr>console := console w1 @ [''[InferenceService] Processing error:'']\<rparr>))
           in case first_prediction emotionResult of
                Inl err \<Rightarrow> failed err
              | Inr (eLabel, eConf) \<Rightarrow>
                  (case first_prediction rednessResult of
                     Inl err \<Rightarrow> failed err
                   | Inr (rLabel, rConf) \<Rightarrow>
                       (case query_error ae of
                          Some err \<Rightarrow> failed err
                        | None \<Rightarrow>
                            (Inr \<lparr>emotionLabel = eLabel, emotionConf = eConf,
                                  rednessLabel = rLabel, rednessConf = rConf\<rparr>,
                             w1\<lparr>inference_results := inference_results w1 @
                                   [\<lparr>frame_id = fid, emotion_label = eLabel,
                                     emotion_confidence = eConf,
                                     redness_label = rLabel,
                                     redness_confidence = rConf,
                                     processing_time_ms = None\<rparr>]\<rparr>)))))"

text \<open>
  \<open>InferenceResult.create\<close>: the model validates both confidences (\<open>min: 0, max: 1\<close>), the
  insert itself may fail, and the new row's \<open>id\<close> is its position in the table.
\<close>

definition valid_confidence :: "rat option \<Rightarrow> bool" where
  "valid_confidence c = (case c of None \<Rightarrow> True | Some x \<Rightarrow> 0 \<le> x \<and> x \<le> 1)"

definition InferenceResult_create :: "attempt_env \<Rightarrow> row \<Rightarrow> world \<Rightarrow> (error + nat) \<times> world" where
  "InferenceResult_create ae r w =
     (if \<not> (valid_confidence (emotion_confidence r) \<and> valid_confidence (redness_confidence r))
      then (Inl ''SequelizeValidationError'', w)
      else case create_error ae r of
             Some err \<Rightarrow> (Inl err, w)
           | None \<Rightarrow> (Inr (length (inference_results w) + 1),
                      w\<lparr>inference_results := inference_results w @ [r]\<rparr>))"

text \<open>\<open>StorageService.markFrameProcessed\<close>: an \<open>UPDATE\<close> that sets \<open>processed\<close> in the rows
  of \<open>frames\<close> with that id.\<close>

definition marked :: "nat \<Rightarrow> (nat \<times> bool) list \<Rightarrow> (nat \<times> bool) list" where
  "marked fid fs = map (\<lambda>(i, p). if i = fid then (i, True) else (i, p)) fs"

definition markFrameProcessed :: "attempt_env \<Rightarrow> nat \<Rightarrow> world \<Rightarrow> (error + unit) \<times> world" where
  "markFrameProcessed ae fid w =
     (case update_error ae of
        Some err \<Rightarrow> (Inl err, w)
      | None \<Rightarrow> (Inr (), w\<lparr>frames := marked fid (frames w)\<rparr>))"

definition updateProgress :: "attempt_env \<Rightarrow> nat \<Rightarrow> world \<Rightarrow> (error + unit) \<times> world" where
  "updateProgress ae n w =
     (case updateProgress_error ae n of
        Some err \<Rightarrow> (Inl err, w)
      | None \<Rightarrow> (Inr (), w\<lparr>progress := progress w @ [n]\<rparr>))"

definition confidence_json :: "rat option \<Rightarrow> json" where
  "confidence_json c = (case c of None \<Rightarrow> JNull | Some x \<Rightarrow> JNum x)"

definition result_event :: "string \<Rightarrow> nat \<Rightarrow> scores \<Rightarrow> int \<Rightarrow> json" where
  "result_event sid fid sc t =
     JObj [(''sessionId'', JStr sid), (''frameId'', JNum (of_nat fid)),
           (''emotionLabel'', JStr (emotionLabel sc)),
           (''emotionConf'', confidence_json (emotionConf sc)),
           (''rednessLabel'', JStr (rednessLabel sc)),
           (''rednessConf'', confidence_json (rednessConf sc)),
           (''processingTime'', JNum (of_int t))]"

definition publish_result ::
  "attempt_env \<Rightarrow> job \<Rightarrow> scores \<Rightarrow> world \<Rightarrow> (error + unit) \<times> world" where
  "publish_result ae j sc w =
     (case job_sessionId j of
        None \<Rightarrow> (Inr (), w)
      | Some sid \<Rightarrow>
          if sid = [] then (Inr (), w)
          else (case publish_error ae of
                  Some err \<Rightarrow> (Inl err, w)
                | None \<Rightarrow>
                    (Inr (), w\<lparr>published := published w @
                       [(''inference-results'',
                         result_event sid (frameId j) sc (now_publish ae - startTime ae))]\<rparr>)))"

text \<open>The \<open>try\<close> block of \<open>processInferenceJob\<close>: each awaited call either raises, which
  ends the block with what was written so far, or hands on to the next.\<close>

definition try_block :: "attempt_env \<Rightarrow> job \<Rightarrow> world \<Rightarrow> (error + job_result) \<times> world" where
  "try_block ae j w0 =
     (let w = w0\<lparr>console := console w0 @ [''[InferenceWorker] Processing frame '']\<rparr>
      in case updateProgress ae 10 w of
        (Inl err, w1) \<Rightarrow> (Inl err, w1)
      | (Inr _, w1) \<Rightarrow>
      (case processFrame ae (frameId j) (s3Key j) w1 of
        (Inl err, w2) \<Rightarrow> (Inl err, w2)
      | (Inr sc, w2) \<Rightarrow>
      (case updateProgress ae 70 w2 of
        (Inl err, w3) \<Rightarrow> (Inl err, w3)
      | (Inr _, w3) \<Rightarrow>
      (case InferenceResult_create ae
              \<lparr>frame_id = frameId j, emotion_label = emotionLabel sc,
               emotion_confidence = emotionConf sc, redness_label = rednessLabel sc,
               redness_confidence = rednessConf sc,
               processing_time_ms = Some (now_create ae - startTime ae)\<rparr> w3 of
        (Inl err, w4) \<Rightarrow> (Inl err, w4)
      | (Inr rid, w4) \<Rightarrow>
      (case updateProgress ae 90 w4 of
        (Inl err, w5) \<Rightarrow> (Inl err, w5)
      | (Inr _, w5) \<Rightarrow>
      (case markFrameProcessed ae (frameId j) w5 of
        (Inl err, w6) \<Rightarrow> (Inl err, w6)
      | (Inr _, w6) \<Rightarrow>
      (case publish_result ae j sc w6 of
        (Inl err, w7) \<Rightarrow> (Inl err, w7)
      | (Inr _, w7) \<Rightarrow>
      (case updateProgress ae 100 w7 of
        (Inl err, w8) \<Rightarrow> (Inl err, w8)
      | (Inr _, w8) \<Rightarrow>
          (Inr \<lparr>success = True, result_frameId = frameId j, inferenceId = rid,
                processingTime = now_return ae - startTime ae, results = sc\<rparr>,
           w8\<lparr>console := console w8 @ [''[InferenceWorker] Completed frame '']\<rparr>)))))))))"

definition sentinel_row :: "attempt_env \<Rightarrow> job \<Rightarrow> row" where
  "sentinel_row ae j =
     \<lparr>frame_id = frameId j, emotion_label = ''ERROR'', emotion_confidence = None,
      redness_label = ''ERROR'', redness_confidence = None,
      processing_time_ms = Some (now_sentinel ae - startTime ae)\<rparr>"

text \<open>\<open>processInferenceJob\<close>: the \<open>try\<close> block, and the \<open>catch\<close> that records the failure
  and raises the error again.\<close>

definition processInferenceJob ::
  "attempt_env \<Rightarrow> job \<Rightarrow> world \<Rightarrow> (error + job_result) \<times> world" where
  "processInferenceJob ae j w =
     (case try_block ae j w of
        (Inr r, w1) \<Rightarrow> (Inr r, w1)
      | (Inl err, w1) \<Rightarrow>
          (let w2 = w1\<lparr>console := console w1 @ [''[InferenceWorker] Error processing frame '']\<rparr>
           in case InferenceResult_create ae (sentinel_row ae j) w2 of
                (Inr _, w3) \<Rightarrow> (Inl err, w3)
              | (Inl dbError, w3) \<Rightarrow>
                  (Inl err,
                   w3\<lparr>console := console w3 @ [''[InferenceWorker] Failed to log error:'']\<rparr>)))"

definition is_sentinel :: "row \<Rightarrow> bool" where
  "is_sentinel r \<longleftrightarrow>
     emotion_label r = ''ERROR'' \<and> emotion_confidence r = None \<and>
     redness_label r = ''ERROR'' \<and> redness_confidence r = None"

definition processed :: "world \<Rightarrow> nat \<Rightarrow> bool" where
  "processed w fid = (map_of (frames w) fid = Some True)"

section \<open>Queues\<close>

datatype backoff_type = Fixed | Exponential

record backoff =
  type :: backoff_type
  delay :: nat

record jobOpts =
  attempts :: nat
  backoff :: backoff
  removeOnComplete :: nat
  removeOnFail :: nat

text \<open>The options that \<open>addFrameJob\<close> and \<open>addInferenceJob\<close> give to \<open>queue.add\<close>.\<close>

definition addFrameJob_opts :: jobOpts where
  "addFrameJob_opts =
     \<lparr>attempts = 3, backoff = \<lparr>type = Exponential, delay = 2000\<rparr>,
      removeOnComplete = 100, removeOnFail = 50\<rparr>"

definition addInferenceJob_opts :: jobOpts where
  "addInferenceJob_opts =
     \<lparr>attempts = 2, backoff = \<lparr>type = Fixed, delay = 5000\<rparr>,
      removeOnComplete = 100, removeOnFail = 50\<rparr>"


text \<open>
  Modelled from the spec: the retry engine of the job queue, which is the queue library
  and not part of the sources. A job whose handler raises is retried after the backoff
  delay of its policy until its attempts are used up, then marked failed and not
  submitted again; the delay is the base delay for a fixed policy and doubles with every
  failed attempt for an exponential one. The handler is given the number of the attempt
  and the state it works on, and answers whether it returned (\<open>True\<close>) or raised.
\<close>

definition backoff_delay :: "jobOpts \<Rightarrow> nat \<Rightarrow> nat" where
  "backoff_delay opts attemptsMade =
     (case type (backoff opts) of
        Fixed \<Rightarrow> delay (backoff opts)
      | Exponential \<Rightarrow> delay (backoff opts) * 2 ^ (attemptsMade - 1))"

datatype job_state = Completed | Failed

text \<open>
  Modelled from the spec: the loop of the queue library over the attempts of one job.
  \<open>made\<close> attempts are behind and \<open>left\<close> are allowed still; the result is the final state
  of the job, the number of attempts made, the delays waited between them and the state
  the handler left.
\<close>

fun retry_loop ::
  "jobOpts \<Rightarrow> (nat \<Rightarrow> 's \<Rightarrow> bool \<times> 's) \<Rightarrow> nat \<Rightarrow> nat \<Rightarrow> 's \<Rightarrow> job_state \<times> nat \<times> nat list \<times> 's" where
  "retry_loop opts handler made 0 s = (Failed, made, [], s)"
| "retry_loop opts handler made (Suc left) s =
     (case handler (made + 1) s of
        (True, s1) \<Rightarrow> (Completed, made + 1, [], s1)
      | (False, s1) \<Rightarrow>
          if left = 0 then (Failed, made + 1, [], s1)
          else (case retry_loop opts handler (made + 1) left s1 of
                  (state, n, delays, s2) \<Rightarrow>
                    (state, n, backoff_delay opts (made + 1) # delays, s2)))"

text \<open>Modelled from the spec: a job added with options \<open>opts\<close> is allowed
  \<open>attempts opts\<close> attempts.\<close>

definition run_job ::
  "jobOpts \<Rightarrow> (nat \<Rightarrow> 's \<Rightarrow> bool \<times> 's) \<Rightarrow> 's \<Rightarrow> job_state \<times> nat \<times> nat list \<times> 's" where
  "run_job opts handler s = retry_loop opts handler 0 (attempts opts) s"


text \<open>How many sentinel rows and how many other rows the table holds for a frame.\<close>

definition sentinel_count :: "world \<Rightarrow> nat \<Rightarrow> nat" where
  "sentinel_count w fid =
     length (filter (\<lambda>r. frame_id r = fid \<and> is_sentinel r) (inference_results w))"

definition scored_count :: "world \<Rightarrow> nat \<Rightarrow> nat" where
  "scored_count w fid =
     length (filter (\<lambda>r. frame_id r = fid \<and> \<not> is_sentinel r) (inference_results w))"

text \<open>Scores that read like the error marker would make a result row look like a
  sentinel row.\<close>

definition error_marked :: "scores \<Rightarrow> bool" where
  "error_marked sc \<longleftrightarrow>
     emotionLabel sc = ''ERROR'' \<and> emotionConf sc = None \<and>
     rednessLabel sc = ''ERROR'' \<and> rednessConf sc = None"

text \<open>Whether an input is about the socket \<open>w\<close> or is a run of the heartbeat.\<close>

fun concerns :: "ws \<Rightarrow> input \<Rightarrow> bool" where
  "concerns w (Connection w1 req uuid now) = (w1 = w)"
| "concerns w (Pong w1) = (w1 = w)"
| "concerns w (Close w1 code reason) = (w1 = w)"
| "concerns w (Message w1 d) = False"
| "concerns w Tick = True"

text \<open>Recognisers for the actions the theorems count.\<close>

fun is_send :: "action \<Rightarrow> bool" where
  "is_send (Send w d) = True"
| "is_send a = False"

fun is_session_ended :: "action \<Rightarrow> bool" where
  "is_session_ended (Emit (Session_ended sid)) = True"
| "is_session_ended a = False"

text \<open>A socket is written to when it is OPEN and the write does not raise.\<close>

definition deliverable :: "env \<Rightarrow> ws \<Rightarrow> bool" where
  "deliverable e w \<longleftrightarrow> readyState e w = 1 \<and> \<not> send_raises e w"

text \<open>A socket is awake when it is not registered or its liveness flag is set.\<close>

definition awake :: "ws \<Rightarrow> service \<Rightarrow> bool" where
  "awake w st \<longleftrightarrow> (case map_of (clients st) w of None \<Rightarrow> True | Some i \<Rightarrow> isAlive i)"

text \<open>Whether both answers of the scorer for the job's frame read like the error marker.\<close>

definition scored_marker :: "attempt_env \<Rightarrow> job \<Rightarrow> bool" where
  "scored_marker ae j \<longleftrightarrow>
     first_prediction (fst (runInference ae (s3Key j) ''emotion-esmd2/2'')) = Inr (''ERROR'', None) \<and>
     first_prediction (fst (runInference ae (s3Key j) ''redness-of-eyes-aju4x/1''))
       = Inr (''ERROR'', None)"




section \<open>Concrete inputs\<close>

definition ex_env :: env where
  "ex_env = \<lparr>readyState = (\<lambda>w. 1), send_raises = (\<lambda>w. False)\<rparr>"

definition ex_info :: "string \<Rightarrow> clientInfo" where
  "ex_info sid = \<lparr>sessionId = sid, connectedAt = 0, ip = ''10.0.0.1'', isAlive = True, metadata = []\<rparr>"

definition ex_service :: service where
  "ex_service =
     \<lparr>clients = [(1, ex_info ''s1''), (2, ex_info ''s1''), (3, ex_info ''s2'')],
      sessions = [(''s1'', [1, 2]), (''s2'', [3])]\<rparr>"

definition ex_request :: request where
  "ex_request =
     \<lparr>remoteAddress = ''10.0.0.7'', url = ''/?sessionId=client-chosen'',
      headers = [(''x-session-id'', ''client-chosen'')]\<rparr>"

text \<open>
  An application whose storage answers every frame with frame 7 of 2048 bytes, one whose
  storage is down, and one whose job queue is down.
\<close>

definition ex_app :: app_env where
  "ex_app =
     \<lparr>date_now = 1700000000000, getSessionStats = (\<lambda>sid. JNull),
      frame_filename = ''1700000000000_0a1b2c3d.jpg'',
      saveFrame = (\<lambda>encoded filename sid. Inr (7, ''frames/1700000000000_0a1b2c3d.jpg'', 2048)),
      addInferenceJob_error = None\<rparr>"



definition failed_subscription :: startup_env where
  "failed_subscription =
     \<lparr>database_error = None, s3_error = None, redis_ping_error = None,
      subscribe_error = Some ''ECONNREFUSED''\<rparr>"

definition raising_env :: env where
  "raising_env = \<lparr>readyState = (\<lambda>w. 1), send_raises = (\<lambda>w. True)\<rparr>"

definition ex_event :: data where
  "ex_event = Obj (JObj [(''type'', JStr ''inference_complete''), (''sessionId'', JStr ''s1''),
                         (''frameId'', JNum 7)])"

definition always_raises :: "nat \<Rightarrow> unit \<Rightarrow> bool \<times> unit" where
  "always_raises k s = (False, s)"

definition ex_job :: job where
  "ex_job = \<lparr>frameId = 1, s3Key = ''frames/1.jpg'', job_sessionId = Some ''s1''\<rparr>"

definition ex_world :: world where
  "ex_world = \<lparr>inference_results = [], frames = [(1, False)], published = [], progress = [],
               console = []\<rparr>"

definition happy_response :: response where
  "happy_response =
     Response None (Some [\<lparr>pred_label = None, pred_class = Some ''happy'',
                           pred_confidence = Some (9 / 10), pred_score = None\<rparr>])"

text \<open>An attempt on which everything works: the table takes both inserts.\<close>

definition ok_env :: attempt_env where
  "ok_env =
     \<lparr>scorer = (\<lambda>key modelId. Inr happy_response), updateProgress_error = (\<lambda>n. None),
      query_error = None, create_error = (\<lambda>r. None), update_error = None,
      publish_error = None, startTime = 1000, now_create = 1200, now_publish = 1210,
      now_return = 1220, now_sentinel = 1230\<rparr>"

text \<open>An attempt on which every call of the scorer raises.\<close>

definition scorer_down :: attempt_env where
  "scorer_down = ok_env\<lparr>scorer := (\<lambda>key modelId. Inl ''ETIMEDOUT'')\<rparr>"

text \<open>An attempt on which publishing on Redis raises.\<close>

definition publish_down :: attempt_env where
  "publish_down = ok_env\<lparr>publish_error := Some ''ECONNRESET''\<rparr>"

text \<open>An attempt on which the database rejects every statement.\<close>

definition database_down :: attempt_env where
  "database_down =
     ok_env\<lparr>query_error := Some ''ECONNREFUSED'', create_error := (\<lambda>r. Some ''ECONNREFUSED'')\<rparr>"

text \<open>
  An attempt on the table \<open>inference_results\<close> that \<open>sequelize.sync\<close> creates from the
  model \<open>InferenceResult\<close>: the options \<open>timestamps: true, underscored: true\<close> give it the
  columns \<open>created_at\<close> and \<open>updated_at\<close>, both \<open>NOT NULL\<close>, and the \<open>INSERT\<close> statement of
  \<open>processFrame\<close>, which names neither, is rejected; the inserts through the model work.
\<close>

definition model_table :: attempt_env where
  "model_table =
     ok_env\<lparr>query_error :=
       Some ''null value in column created_at violates not-null constraint''\<rparr>"

text \<open>
  An attempt on the table \<open>inference_results\<close> that \<open>initDB\<close> of \<open>config/database.js\<close>
  creates: it has no column \<open>processing_time_ms\<close>, which every insert through the model
  names; the \<open>INSERT\<close> statement of \<open>processFrame\<close> works.
\<close>

definition raw_table :: attempt_env where
  "raw_table =
     ok_env\<lparr>create_error := (\<lambda>r. Some ''column processing_time_ms does not exist'')\<rparr>"

definition publish_always_down :: "nat \<Rightarrow> attempt_env" where
  "publish_always_down k = publish_down"

definition model_table_always :: "nat \<Rightarrow> attempt_env" where
  "model_table_always k = model_table"

definition raw_table_always :: "nat \<Rightarrow> attempt_env" where
  "raw_table_always k = raw_table"

section \<open>The two maps stay consistent\<close>

lemma ball_alist_iff:
  "distinct (map fst al) \<Longrightarrow>
     (\<forall>(k, v) \<in> set al. P k v) \<longleftrightarrow> (\<forall>k v. map_of al k = Some v \<longrightarrow> P k v)"
  by auto

lemma consistent_iff:
  "consistent st \<longleftrightarrow>
     distinct (map fst (clients st)) \<and> distinct (map fst (sessions st)) \<and>
     linked (map_of (clients st)) (map_of (sessions st))"
proof (cases "distinct (map fst (clients st)) \<and> distinct (map fst (sessions st))")
  case False
  then show ?thesis by (auto simp: consistent_def)
next
  case True
  then have dc: "distinct (map fst (clients st))" and ds: "distinct (map fst (sessions st))"
    by simp_all
  have a: "(case map_of (sessions st) s of None \<Rightarrow> False | Some sc \<Rightarrow> w \<in> set sc)
             \<longleftrightarrow> (\<exists>sc. map_of (sessions st) s = Some sc \<and> w \<in> set sc)" for s w
    by (simp split: option.splits)
  have b: "(case map_of (clients st) w of None \<Rightarrow> False | Some info \<Rightarrow> sessionId info = sid)
             \<longleftrightarrow> (\<exists>info. map_of (clients st) w = Some info \<and> sessionId info = sid)" for w sid
    by (simp split: option.splits)
  show ?thesis
    unfolding consistent_def linked_def a b ball_alist_iff [OF dc] ball_alist_iff [OF ds]
    using dc ds by simp
qed

lemma set_add_set: "set (set_add x xs) = insert x (set xs)"
  by (auto simp: set_add_def)

lemma set_add_distinct: "distinct xs \<Longrightarrow> distinct (set_add x xs)"
  by (auto simp: set_add_def)

lemma set_delete_set: "set (set_delete x xs) = set xs - {x}"
  by (auto simp: set_delete_def)

lemma set_delete_distinct: "distinct xs \<Longrightarrow> distinct (set_delete x xs)"
  by (auto simp: set_delete_def distinct_removeAll)

lemma set_add_nonempty: "set_add x xs \<noteq> []"
  by (auto simp: set_add_def)

lemma linked_connect:
  assumes L: "linked cm sm" and N: "cm w = None"
  shows "linked (cm(w \<mapsto> info))
           (sm(sessionId info \<mapsto> set_add w (case sm (sessionId info) of None \<Rightarrow> [] | Some sc \<Rightarrow> sc)))"
proof -
  define s where "s = sessionId info"
  define old where "old = (case sm s of None \<Rightarrow> [] | Some sc \<Rightarrow> sc)"
  have L1: "\<And>w' i. cm w' = Some i \<Longrightarrow> \<exists>sc. sm (sessionId i) = Some sc \<and> w' \<in> set sc"
    and L2: "\<And>sid sc. sm sid = Some sc \<Longrightarrow> sc \<noteq> [] \<and> distinct sc"
    and L3: "\<And>sid sc w'. sm sid = Some sc \<Longrightarrow> w' \<in> set sc \<Longrightarrow>
               \<exists>i. cm w' = Some i \<and> sessionId i = sid"
    using L unfolding linked_def by blast+
  have old_distinct: "distinct old"
    using L2 by (auto simp: old_def split: option.splits)
  have old_mem: "\<exists>i. cm w' = Some i \<and> sessionId i = s" if h: "w' \<in> set old" for w'
  proof (cases "sm s")
    case None
    then show ?thesis using h by (simp add: old_def)
  next
    case (Some sc)
    then have "w' \<in> set sc" using h by (simp add: old_def)
    then show ?thesis using L3 [OF Some] by blast
  qed
  have old_eq: "old = sc" if "sm s = Some sc" for sc
    using that by (simp add: old_def)
  have A: "\<exists>sc. (sm(s \<mapsto> set_add w old)) (sessionId i) = Some sc \<and> w' \<in> set sc"
    if "(cm(w \<mapsto> info)) w' = Some i" for w' i
  proof (cases "w' = w")
    case True
    then have "i = info" using that by simp
    then show ?thesis using True by (simp add: s_def set_add_set)
  next
    case False
    then have c: "cm w' = Some i" using that by simp
    then obtain sc where sc: "sm (sessionId i) = Some sc" "w' \<in> set sc" using L1 by blast
    show ?thesis
    proof (cases "sessionId i = s")
      case True
      then show ?thesis using sc old_eq by (auto simp: set_add_set)
    next
      case False
      then show ?thesis using sc by simp
    qed
  qed
  have B: "sc \<noteq> [] \<and> distinct sc \<and>
           (\<forall>w' \<in> set sc. \<exists>i. (cm(w \<mapsto> info)) w' = Some i \<and> sessionId i = sid)"
    if "(sm(s \<mapsto> set_add w old)) sid = Some sc" for sid sc
  proof (cases "sid = s")
    case True
    then have sc: "sc = set_add w old" using that by simp
    have "\<exists>i. (cm(w \<mapsto> info)) w' = Some i \<and> sessionId i = sid" if "w' \<in> set sc" for w'
    proof (cases "w' = w")
      case True
      then show ?thesis using \<open>sid = s\<close> by (simp add: s_def)
    next
      case False
      then have "w' \<in> set old" using that sc by (simp add: set_add_set)
      then show ?thesis using old_mem False \<open>sid = s\<close> by simp
    qed
    then show ?thesis
      using sc old_distinct by (simp add: set_add_nonempty set_add_distinct)
  next
    case False
    then have m: "sm sid = Some sc" using that by simp
    have "\<exists>i. (cm(w \<mapsto> info)) w' = Some i \<and> sessionId i = sid" if h: "w' \<in> set sc" for w'
    proof -
      obtain i where i: "cm w' = Some i" "sessionId i = sid" using L3 [OF m h] by blast
      then have "w' \<noteq> w" using N by auto
      then show ?thesis using i by simp
    qed
    then show ?thesis using L2 [OF m] by blast
  qed
  show ?thesis
    unfolding linked_def using A B by (simp only: s_def [symmetric] old_def [symmetric]) blast
qed

lemma linked_close_last:
  assumes L: "linked cm sm" and C: "cm w = Some info" and S: "sm (sessionId info) = Some sc"
    and E: "set_delete w sc = []"
  shows "linked (cm(w := None)) (sm(sessionId info := None))"
proof -
  have L1: "\<And>w' i. cm w' = Some i \<Longrightarrow> \<exists>sc. sm (sessionId i) = Some sc \<and> w' \<in> set sc"
    and L2: "\<And>sid sc. sm sid = Some sc \<Longrightarrow> sc \<noteq> [] \<and> distinct sc"
    and L3: "\<And>sid sc w'. sm sid = Some sc \<Longrightarrow> w' \<in> set sc \<Longrightarrow>
               \<exists>i. cm w' = Some i \<and> sessionId i = sid"
    using L unfolding linked_def by blast+
  have only: "set sc \<subseteq> {w}"
    using E set_delete_set [of w sc] by auto
  have A: "\<exists>sc'. (sm(sessionId info := None)) (sessionId i) = Some sc' \<and> w' \<in> set sc'"
    if "(cm(w := None)) w' = Some i" for w' i
  proof -
    have ne: "w' \<noteq> w" and c: "cm w' = Some i" using that by (auto split: if_splits)
    obtain sc' where sc': "sm (sessionId i) = Some sc'" "w' \<in> set sc'" using L1 [OF c] by blast
    have "sessionId i \<noteq> sessionId info"
    proof
      assume "sessionId i = sessionId info"
      then have "sc' = sc" using sc' S by simp
      then show False using sc' only ne by auto
    qed
    then show ?thesis using sc' by simp
  qed
  have B: "sc' \<noteq> [] \<and> distinct sc' \<and>
           (\<forall>w' \<in> set sc'. \<exists>i. (cm(w := None)) w' = Some i \<and> sessionId i = sid)"
    if "(sm(sessionId info := None)) sid = Some sc'" for sid sc'
  proof -
    have ne: "sid \<noteq> sessionId info" and m: "sm sid = Some sc'"
      using that by (auto split: if_splits)
    have "\<exists>i. (cm(w := None)) w' = Some i \<and> sessionId i = sid" if h: "w' \<in> set sc'" for w'
    proof -
      obtain i where i: "cm w' = Some i" "sessionId i = sid" using L3 [OF m h] by blast
      then have "w' \<noteq> w" using C ne by auto
      then show ?thesis using i by simp
    qed
    then show ?thesis using L2 [OF m] by blast
  qed
  show ?thesis unfolding linked_def using A B by blast
qed

lemma linked_close_other:
  assumes L: "linked cm sm" and C: "cm w = Some info" and S: "sm (sessionId info) = Some sc"
    and E: "set_delete w sc \<noteq> []"
  shows "linked (cm(w := None)) (sm(sessionId info \<mapsto> set_delete w sc))"
proof -
  have L1: "\<And>w' i. cm w' = Some i \<Longrightarrow> \<exists>sc. sm (sessionId i) = Some sc \<and> w' \<in> set sc"
    and L2: "\<And>sid sc. sm sid = Some sc \<Longrightarrow> sc \<noteq> [] \<and> distinct sc"
    and L3: "\<And>sid sc w'. sm sid = Some sc \<Longrightarrow> w' \<in> set sc \<Longrightarrow>
               \<exists>i. cm w' = Some i \<and> sessionId i = sid"
    using L unfolding linked_def by blast+
  have A: "\<exists>sc'. (sm(sessionId info \<mapsto> set_delete w sc)) (sessionId i) = Some sc' \<and> w' \<in> set sc'"
    if "(cm(w := None)) w' = Some i" for w' i
  proof -
    have ne: "w' \<noteq> w" and c: "cm w' = Some i" using that by (auto split: if_splits)
    obtain sc' where sc': "sm (sessionId i) = Some sc'" "w' \<in> set sc'" using L1 [OF c] by blast
    show ?thesis
    proof (cases "sessionId i = sessionId info")
      case True
      then have "sc' = sc" using sc' S by simp
      then show ?thesis using True sc' ne by (simp add: set_delete_set)
    next
      case False
      then show ?thesis using sc' by simp
    qed
  qed
  have B: "sc' \<noteq> [] \<and> distinct sc' \<and>
           (\<forall>w' \<in> set sc'. \<exists>i. (cm(w := None)) w' = Some i \<and> sessionId i = sid)"
    if "(sm(sessionId info \<mapsto> set_delete w sc)) sid = Some sc'" for sid sc'
  proof (cases "sid = sessionId info")
    case True
    then have sc': "sc' = set_delete w sc" using that by simp
    have "\<exists>i. (cm(w := None)) w' = Some i \<and> sessionId i = sid" if "w' \<in> set sc'" for w'
    proof -
      have "w' \<in> set sc" "w' \<noteq> w" using that sc' by (auto simp: set_delete_set)
      then show ?thesis using L3 [OF S] True by auto
    qed
    then show ?thesis using sc' E L2 [OF S] by (simp add: set_delete_distinct)
  next
    case False
    then have m: "sm sid = Some sc'" using that by simp
    have "\<exists>i. (cm(w := None)) w' = Some i \<and> sessionId i = sid" if h: "w' \<in> set sc'" for w'
    proof -
      obtain i where i: "cm w' = Some i" "sessionId i = sid" using L3 [OF m h] by blast
      then have "w' \<noteq> w" using C False by auto
      then show ?thesis using i by simp
    qed
    then show ?thesis using L2 [OF m] by blast
  qed
  show ?thesis unfolding linked_def using A B by blast
qed

lemma handleConnection_sessions:
  "map_of (sessions (fst (handleConnection e st w req uuid now)))
     = (map_of (sessions st))(uuid \<mapsto>
          set_add w (case map_of (sessions st) uuid of None \<Rightarrow> [] | Some sc \<Rightarrow> sc))"
  unfolding handleConnection_def Let_def
  by (auto simp: update_conv' split: option.splits)

lemma handleConnection_clients:
  "clients (fst (handleConnection e st w req uuid now))
     = AList.update w \<lparr>sessionId = uuid, connectedAt = now, ip = remoteAddress req,
                        isAlive = True, metadata = []\<rparr> (clients st)"
  unfolding handleConnection_def Let_def by simp

lemma handleConnection_distinct:
  "distinct (map fst (sessions st)) \<Longrightarrow>
     distinct (map fst (sessions (fst (handleConnection e st w req uuid now))))"
  unfolding handleConnection_def Let_def
  by (auto simp: distinct_update split: option.splits)

lemma handleConnection_consistent:
  assumes "consistent st" and "w \<notin> fst ` set (clients st)"
  shows "consistent (fst (handleConnection e st w req uuid now))"
proof -
  have nw: "map_of (clients st) w = None"
    using assms(2) by (simp add: map_of_eq_None_iff)
  have L: "linked (map_of (clients st)) (map_of (sessions st))"
    using assms(1) by (simp add: consistent_iff)
  show ?thesis
    unfolding consistent_iff handleConnection_sessions handleConnection_clients update_conv'
    using linked_connect [OF L nw, of "\<lparr>sessionId = uuid, connectedAt = now,
            ip = remoteAddress req, isAlive = True, metadata = []\<rparr>"]
      assms(1) handleConnection_distinct [of st e w req uuid now]
    by (simp add: consistent_iff distinct_update)
qed

lemma handleClose_unregistered:
  "map_of (clients st) w = None \<Longrightarrow> handleClose st w code reason = (st, [])"
  by (simp add: handleClose_def)

lemma handleClose_consistent:
  assumes "consistent st"
  shows "consistent (fst (handleClose st w code reason))"
proof (cases "map_of (clients st) w")
  case None
  then show ?thesis using assms by (simp add: handleClose_unregistered)
next
  case (Some info)
  have L: "linked (map_of (clients st)) (map_of (sessions st))"
    and D: "distinct (map fst (clients st))" "distinct (map fst (sessions st))"
    using assms by (simp_all add: consistent_iff)
  obtain sc where sc: "map_of (sessions st) (sessionId info) = Some sc"
    using L Some unfolding linked_def by blast
  show ?thesis
  proof (cases "set_delete w sc = []")
    case True
    have "linked (map_of (AList.delete w (clients st)))
            (map_of (AList.delete (sessionId info) (sessions st)))"
      unfolding delete_conv' using linked_close_last [OF L Some sc True] .
    then show ?thesis
      using Some sc True D
      by (simp add: consistent_iff handleClose_def Let_def distinct_delete)
  next
    case False
    have "linked (map_of (AList.delete w (clients st)))
            (map_of (AList.update (sessionId info) (set_delete w sc) (sessions st)))"
      unfolding delete_conv' update_conv' using linked_close_other [OF L Some sc False] .
    then show ?thesis
      using Some sc False D
      by (simp add: consistent_iff handleClose_def Let_def distinct_delete distinct_update)
  qed
qed

lemma linked_same_sessions:
  assumes "linked cm sm" and "\<And>w. map_option sessionId (cm1 w) = map_option sessionId (cm w)"
  shows "linked cm1 sm"
proof -
  have a: "cm1 w = Some i \<Longrightarrow> \<exists>i0. cm w = Some i0 \<and> sessionId i0 = sessionId i" for w i
    using assms(2) [of w] by (cases "cm w") auto
  have b: "cm w = Some i \<Longrightarrow> \<exists>i1. cm1 w = Some i1 \<and> sessionId i1 = sessionId i" for w i
    using assms(2) [of w] by (cases "cm1 w") auto
  show ?thesis
    unfolding linked_def
  proof (intro conjI allI impI)
    fix w i assume "cm1 w = Some i"
    then obtain i0 where "cm w = Some i0" "sessionId i0 = sessionId i" using a by blast
    then show "\<exists>sc. sm (sessionId i) = Some sc \<and> w \<in> set sc"
      using assms(1) unfolding linked_def by metis
  next
    fix sid sc assume "sm sid = Some sc"
    then show "sc \<noteq> []" using assms(1) unfolding linked_def by blast
  next
    fix sid sc assume "sm sid = Some sc"
    then show "distinct sc" using assms(1) unfolding linked_def by blast
  next
    fix sid sc assume s: "sm sid = Some sc"
    show "\<forall>w\<in>set sc. \<exists>info. cm1 w = Some info \<and> sessionId info = sid"
    proof
      fix w assume "w \<in> set sc"
      then obtain i where "cm w = Some i" "sessionId i = sid"
        using assms(1) s unfolding linked_def by blast
      then show "\<exists>info. cm1 w = Some info \<and> sessionId info = sid" using b by blast
    qed
  qed
qed

lemma handlePong_consistent:
  assumes "consistent st"
  shows "consistent (handlePong st w)"
proof (cases "map_of (clients st) w")
  case None
  then show ?thesis using assms by (simp add: handlePong_def)
next
  case (Some info)
  have "linked (map_of (AList.update w (info\<lparr>isAlive := True\<rparr>) (clients st))) (map_of (sessions st))"
  proof (rule linked_same_sessions [where cm = "map_of (clients st)"])
    show "linked (map_of (clients st)) (map_of (sessions st))"
      using assms by (simp add: consistent_iff)
    show "map_option sessionId (map_of (AList.update w (info\<lparr>isAlive := True\<rparr>) (clients st)) w1)
            = map_option sessionId (map_of (clients st) w1)" for w1
      using Some by (simp add: update_conv')
  qed
  then show ?thesis
    using assms Some by (simp add: consistent_iff handlePong_def distinct_update)
qed

lemma heartbeat_each_clients:
  "fst (heartbeat_each cs) = map (\<lambda>(w, info). (w, info\<lparr>isAlive := False\<rparr>)) cs"
  by (induction cs rule: heartbeat_each.induct) (auto split: prod.splits)

lemma heartbeat_clients:
  "clients (fst (heartbeat st)) = map (\<lambda>(w, info). (w, info\<lparr>isAlive := False\<rparr>)) (clients st)"
  using heartbeat_each_clients [of "clients st"]
  by (cases "heartbeat_each (clients st)") (simp add: heartbeat_def)

lemma heartbeat_sessions: "sessions (fst (heartbeat st)) = sessions st"
  by (cases "heartbeat_each (clients st)") (simp add: heartbeat_def)

lemma heartbeat_consistent:
  assumes "consistent st"
  shows "consistent (fst (heartbeat st))"
proof -
  let ?f = "\<lambda>(w, info). (w, info\<lparr>isAlive := False\<rparr>)"
  have k: "fst \<circ> ?f = fst"
    by (auto simp: fun_eq_iff)
  have m: "map_of (map ?f cs) w = map_option (\<lambda>i. i\<lparr>isAlive := False\<rparr>) (map_of cs w)"
    for cs :: "(ws \<times> clientInfo) list" and w
    by (induction cs) auto
  have "linked (map_of (map ?f (clients st))) (map_of (sessions st))"
  proof (rule linked_same_sessions [where cm = "map_of (clients st)"])
    show "linked (map_of (clients st)) (map_of (sessions st))"
      using assms by (simp add: consistent_iff)
    show "map_option sessionId (map_of (map ?f (clients st)) w1)
            = map_option sessionId (map_of (clients st) w1)" for w1
      unfolding m by (cases "map_of (clients st) w1") simp_all
  qed
  then show ?thesis
    using assms by (simp add: consistent_iff heartbeat_clients heartbeat_sessions k)
qed

lemma run_Cons_fst:
  "fst (run e app st (i # evs)) = fst (run e app (fst (step e app st i)) evs)"
  by (simp split: prod.splits)

lemma step_consistent:
  assumes "consistent st" and "fresh_socket st i"
  shows "consistent (fst (step e app st i))"
  using assms handleConnection_consistent [of st _ e] handlePong_consistent [of st]
    handleClose_consistent [of st] heartbeat_consistent [of st]
  by (cases i) simp_all

lemma run_consistent:
  "consistent st \<Longrightarrow> fresh_sockets e app st evs \<Longrightarrow> consistent (fst (run e app st evs))"
proof (induction evs arbitrary: st)
  case Nil
  then show ?case by simp
next
  case (Cons i evs)
  have f: "fresh_socket st i" "fresh_sockets e app (fst (step e app st i)) evs"
    using Cons.prems(2) by simp_all
  have "consistent (fst (step e app st i))"
    using step_consistent [OF Cons.prems(1) f(1)] .
  then show ?case
    using Cons.IH f(2) by (simp only: run_Cons_fst)
qed

lemma new_service_consistent: "consistent new_service"
  by (simp add: consistent_def new_service_def)

lemma consistent_reading:
  assumes "consistent st"
  shows "map_of (clients st) w = Some info \<Longrightarrow>
           \<exists>sc. map_of (sessions st) (sessionId info) = Some sc \<and> w \<in> set sc"
    and "map_of (sessions st) sid = Some sc \<Longrightarrow> w \<in> set sc \<Longrightarrow>
           \<exists>info. map_of (clients st) w = Some info \<and> sessionId info = sid"
    and "map_of (sessions st) sid = Some sc \<Longrightarrow> sc \<noteq> []"
  using assms unfolding consistent_iff linked_def by blast+

text \<open>
  Claim C10. The two maps of the service are consistent with each other in every state
  the service reaches: the new service is consistent, \<open>handleConnection\<close> (for a socket
  that is not registered yet, as every new connection's is) and \<open>handleClose\<close> keep it so,
  and so does every run of inputs. In a consistent state every key of \<open>clients\<close> is a
  member of the set that \<open>sessions\<close> holds for its session identifier, every member of a
  set of \<open>sessions\<close> is a key of \<open>clients\<close> recorded under that identifier, and no set
  in \<open>sessions\<close> is empty.
\<close>

theorem maps_consistent:
  "consistent new_service \<and>
   (consistent st \<and> w \<notin> fst ` set (clients st) \<longrightarrow>
      consistent (fst (handleConnection e st w req uuid now))) \<and>
   (consistent st \<longrightarrow> consistent (fst (handleClose st w code reason))) \<and>
   (consistent st \<and> fresh_sockets e app st evs \<longrightarrow>
      consistent (fst (run e app st evs))) \<and>
   (consistent st \<longrightarrow>
      (\<forall>w info. map_of (clients st) w = Some info \<longrightarrow>
         (\<exists>sc. map_of (sessions st) (sessionId info) = Some sc \<and> w \<in> set sc)) \<and>
      (\<forall>sid sc w. map_of (sessions st) sid = Some sc \<and> w \<in> set sc \<longrightarrow>
         (\<exists>info. map_of (clients st) w = Some info \<and> sessionId info = sid)) \<and>
      (\<forall>sid sc. map_of (sessions st) sid = Some sc \<longrightarrow> sc \<noteq> []))"
proof (intro conjI impI)
  show "consistent new_service" by (rule new_service_consistent)
next
  assume "consistent st \<and> w \<notin> fst ` set (clients st)"
  then show "consistent (fst (handleConnection e st w req uuid now))"
    using handleConnection_consistent by simp
next
  assume "consistent st"
  then show "consistent (fst (handleClose st w code reason))"
    by (rule handleClose_consistent)
next
  assume "consistent st \<and> fresh_sockets e app st evs"
  then show "consistent (fst (run e app st evs))"
    using run_consistent by simp
next
  assume c: "consistent st"
  show "\<forall>w info. map_of (clients st) w = Some info \<longrightarrow>
         (\<exists>sc. map_of (sessions st) (sessionId info) = Some sc \<and> w \<in> set sc)"
    using consistent_reading(1) [OF c] by simp
next
  assume c: "consistent st"
  show "\<forall>sid sc w. map_of (sessions st) sid = Some sc \<and> w \<in> set sc \<longrightarrow>
         (\<exists>info. map_of (clients st) w = Some info \<and> sessionId info = sid)"
    using consistent_reading(2) [OF c] by simp
next
  assume c: "consistent st"
  show "\<forall>sid sc. map_of (sessions st) sid = Some sc \<longrightarrow> sc \<noteq> []"
    using consistent_reading(3) [OF c] by simp
qed

theorem maps_consistent_witness:
  "consistent ex_service \<and> 4 \<notin> fst ` set (clients ex_service) \<and>
   consistent (fst (handleConnection ex_env ex_service 4 ex_request ''s3'' 5)) \<and>
   consistent (fst (handleClose ex_service 4 1000 [])) \<and>
   fresh_sockets ex_env ex_app ex_service
     [Connection 4 ex_request ''s3'' 5, Close 3 1000 [], Tick, Pong 1] \<and>
   consistent (fst (run ex_env ex_app ex_service
     [Connection 4 ex_request ''s3'' 5, Close 3 1000 [], Tick, Pong 1])) \<and>
   map_of (sessions ex_service) ''s2'' = Some [3]"
proof -
  have c: "consistent ex_service"
    by (simp add: consistent_def ex_service_def ex_info_def)
  have n: "4 \<notin> fst ` set (clients ex_service)"
    by (simp add: ex_service_def)
  have f: "fresh_sockets ex_env ex_app ex_service
     [Connection 4 ex_request ''s3'' 5, Close 3 1000 [], Tick, Pong 1]"
    by (simp add: ex_service_def)
  have s: "map_of (sessions ex_service) ''s2'' = Some [3]"
    by (simp add: ex_service_def)
  show ?thesis
    using c n f s
      maps_consistent [where st = ex_service and w = 4 and e = ex_env and req = ex_request
        and uuid = "''s3''" and now = 5 and code = 1000 and reason = "[]" and app = ex_app
        and evs = "[Connection 4 ex_request ''s3'' 5, Close 3 1000 [], Tick, Pong 1]"]
    by simp
qed

section \<open>Delivery, closing and accepting connections\<close>

lemma send_each_result:
  "send_each e d ws sent acts =
     (sent + length (filter (deliverable e) ws),
      acts @ concat (map (\<lambda>w. snd (sendToClient e w d)) ws))"
  by (induction ws arbitrary: sent acts) (auto simp: sendToClient_def deliverable_def)

lemma filter_send_sendToClient:
  "filter is_send (snd (sendToClient e w d)) = (if deliverable e w then [Send w d] else [])"
  by (simp add: sendToClient_def deliverable_def)

lemma filter_send_concat:
  "filter is_send (concat (map (\<lambda>w. snd (sendToClient e w d)) ws))
     = map (\<lambda>w. Send w d) (filter (deliverable e) ws)"
  by (induction ws) (simp_all add: filter_send_sendToClient)

text \<open>
  Claim C1, as amended. \<open>sendToSession\<close> returns 0 and writes nothing for a session with
  no local connections. For a session with connections it writes the event, unchanged,
  once to every connection that is OPEN and whose write does not raise, in the order of
  the set, and returns the number of those connections; a write that raises is caught
  and not counted. When no write to an OPEN connection raises, the count is the number
  \<open>k\<close> of OPEN connections of the session.
\<close>

theorem sendToSession_delivers:
  "(map_of (sessions st) sid = None \<longrightarrow> sendToSession e st sid d = (0, [])) \<and>
   (map_of (sessions st) sid = Some sc \<longrightarrow>
      fst (sendToSession e st sid d) = length (filter (deliverable e) sc) \<and>
      filter is_send (snd (sendToSession e st sid d))
        = map (\<lambda>w. Send w d) (filter (deliverable e) sc) \<and>
      ((\<forall>w \<in> set sc. readyState e w = 1 \<longrightarrow> \<not> send_raises e w) \<longrightarrow>
         fst (sendToSession e st sid d) = length (filter (\<lambda>w. readyState e w = 1) sc)))"
proof (intro conjI impI)
  assume "map_of (sessions st) sid = None"
  then show "sendToSession e st sid d = (0, [])" by (simp add: sendToSession_def)
next
  assume "map_of (sessions st) sid = Some sc"
  then show "fst (sendToSession e st sid d) = length (filter (deliverable e) sc)"
    by (simp add: sendToSession_def send_each_result)
next
  assume "map_of (sessions st) sid = Some sc"
  then show "filter is_send (snd (sendToSession e st sid d))
        = map (\<lambda>w. Send w d) (filter (deliverable e) sc)"
    by (simp add: sendToSession_def send_each_result filter_send_concat)
next
  assume s: "map_of (sessions st) sid = Some sc"
    and a: "\<forall>w \<in> set sc. readyState e w = 1 \<longrightarrow> \<not> send_raises e w"
  have "filter (deliverable e) sc = filter (\<lambda>w. readyState e w = 1) sc"
    using a by (intro filter_cong) (auto simp: deliverable_def)
  then show "fst (sendToSession e st sid d) = length (filter (\<lambda>w. readyState e w = 1) sc)"
    using s by (simp add: sendToSession_def send_each_result)
qed

theorem sendToSession_delivers_witness:
  "map_of (sessions ex_service) ''s1'' = Some [1, 2] \<and>
   map_of (sessions ex_service) ''s9'' = None \<and>
   sendToSession ex_env ex_service ''s9'' ex_event = (0, []) \<and>
   readyState ex_env 1 = 1 \<and> \<not> send_raises ex_env 1 \<and>
   readyState ex_env 2 = 1 \<and> \<not> send_raises ex_env 2 \<and>
   fst (sendToSession ex_env ex_service ''s1'' ex_event) = 2 \<and>
   filter is_send (snd (sendToSession ex_env ex_service ''s1'' ex_event))
     = [Send 1 ex_event, Send 2 ex_event]"
proof -
  have a: "map_of (sessions ex_service) ''s1'' = Some [1, 2]"
    and b: "map_of (sessions ex_service) ''s9'' = None"
    by (simp_all add: ex_service_def)
  have c: "\<forall>w \<in> set [1, 2]. readyState ex_env w = 1 \<longrightarrow> \<not> send_raises ex_env w"
    by (simp add: ex_env_def)
  have f: "deliverable ex_env w" for w
    by (simp add: deliverable_def ex_env_def)
  have g: "readyState ex_env 1 = 1" "\<not> send_raises ex_env 1"
    "readyState ex_env 2 = 1" "\<not> send_raises ex_env 2"
    by (simp_all add: ex_env_def)
  show ?thesis
    using a b c g
      sendToSession_delivers [where st = ex_service and sid = "''s1''" and e = ex_env
        and d = ex_event and sc = "[1, 2]"]
      sendToSession_delivers [where st = ex_service and sid = "''s9''" and e = ex_env
        and d = ex_event and sc = "[]"]
    by (simp add: f)
qed

text \<open>
  Claim C1 as stated fails where \<open>ws.send\<close> raises: session \<open>s1\<close> has two OPEN
  connections, both writes raise and are caught, and \<open>sendToSession\<close> returns 0, not 2.
\<close>

theorem sendToSession_counterexample:
  "map_of (sessions ex_service) ''s1'' = Some [1, 2] \<and>
   readyState raising_env 1 = 1 \<and> readyState raising_env 2 = 1 \<and>
   sendToSession raising_env ex_service ''s1'' ex_event
     = (0, [Log ''[WebSocketService] Send error:'', Log ''[WebSocketService] Send error:''])"
  by (simp add: ex_service_def raising_env_def sendToSession_def sendToClient_def)

lemma set_delete_empty_iff:
  "distinct sc \<Longrightarrow> w \<in> set sc \<Longrightarrow> set_delete w sc = [] \<longleftrightarrow> sc = [w]"
proof
  assume d: "distinct sc" and m: "w \<in> set sc" and e: "set_delete w sc = []"
  have "set sc = {w}" using set_delete_set [of w sc] e m by auto
  then show "sc = [w]" using d
    by (metis distinct.simps(2) empty_iff insert_iff list.exhaust list.set(1) list.simps(15))
next
  assume "sc = [w]" then show "set_delete w sc = []" by (simp add: set_delete_def)
qed

text \<open>
  Claim C9. After \<open>handleClose\<close> in a consistent state the state is consistent again, so
  no session of the registry has an empty set of connections. Closing a socket that is
  not registered changes nothing. Closing a registered socket removes it from \<open>clients\<close>;
  if it was the last connection of its session, the session's entry is deleted and
  exactly one \<open>session_ended\<close> event is emitted, for that session; otherwise the session
  keeps a non-empty set and no \<open>session_ended\<close> event is emitted.
\<close>

theorem handleClose_ends_session:
  assumes c: "consistent st"
  shows "consistent (fst (handleClose st w code reason)) \<and>
         (\<forall>(sid, sc) \<in> set (sessions (fst (handleClose st w code reason))). sc \<noteq> []) \<and>
         (case map_of (clients st) w of
            None \<Rightarrow> handleClose st w code reason = (st, [])
          | Some info \<Rightarrow>
              map_of (clients (fst (handleClose st w code reason))) w = None \<and>
              (if map_of (sessions st) (sessionId info) = Some [w]
               then map_of (sessions (fst (handleClose st w code reason))) (sessionId info) = None \<and>
                    filter is_session_ended (snd (handleClose st w code reason))
                      = [Emit (Session_ended (sessionId info))]
               else (\<exists>sc. map_of (sessions (fst (handleClose st w code reason))) (sessionId info)
                             = Some sc \<and> sc \<noteq> []) \<and>
                    filter is_session_ended (snd (handleClose st w code reason)) = []))"
proof (intro conjI)
  show c1: "consistent (fst (handleClose st w code reason))"
    using c by (rule handleClose_consistent)
  show "\<forall>(sid, sc) \<in> set (sessions (fst (handleClose st w code reason))). sc \<noteq> []"
    using c1 unfolding consistent_def by auto
  show "case map_of (clients st) w of
            None \<Rightarrow> handleClose st w code reason = (st, [])
          | Some info \<Rightarrow>
              map_of (clients (fst (handleClose st w code reason))) w = None \<and>
              (if map_of (sessions st) (sessionId info) = Some [w]
               then map_of (sessions (fst (handleClose st w code reason))) (sessionId info) = None \<and>
                    filter is_session_ended (snd (handleClose st w code reason))
                      = [Emit (Session_ended (sessionId info))]
               else (\<exists>sc. map_of (sessions (fst (handleClose st w code reason))) (sessionId info)
                             = Some sc \<and> sc \<noteq> []) \<and>
                    filter is_session_ended (snd (handleClose st w code reason)) = [])"
  proof (cases "map_of (clients st) w")
    case None
    then show ?thesis by (simp add: handleClose_unregistered)
  next
    case (Some info)
    have L: "linked (map_of (clients st)) (map_of (sessions st))"
      using c by (simp add: consistent_iff)
    obtain sc where sc: "map_of (sessions st) (sessionId info) = Some sc" "w \<in> set sc"
      using L Some unfolding linked_def by blast
    have d: "distinct sc" using L sc unfolding linked_def by blast
    have e: "set_delete w sc = [] \<longleftrightarrow> sc = [w]"
      using set_delete_empty_iff [OF d sc(2)] .
    show ?thesis
    proof (cases "sc = [w]")
      case True
      then show ?thesis
        using Some sc
        by (simp add: handleClose_def Let_def delete_conv' set_delete_def)
    next
      case False
      then have "set_delete w sc \<noteq> []" using e by simp
      then show ?thesis
        using Some sc False
        by (simp add: handleClose_def Let_def delete_conv' update_conv')
    qed
  qed
qed

theorem handleClose_ends_session_witness:
  "consistent ex_service \<and>
   consistent (fst (handleClose ex_service 3 1000 [])) \<and>
   map_of (sessions (fst (handleClose ex_service 3 1000 []))) ''s2'' = None \<and>
   filter is_session_ended (snd (handleClose ex_service 3 1000 [])) = [Emit (Session_ended ''s2'')] \<and>
   map_of (sessions (fst (handleClose ex_service 1 1000 []))) ''s1'' = Some [2] \<and>
   filter is_session_ended (snd (handleClose ex_service 1 1000 [])) = []"
proof -
  have c: "consistent ex_service"
    by (simp add: consistent_def ex_service_def ex_info_def)
  have a: "map_of (clients ex_service) 3 = Some (ex_info ''s2'')"
    "map_of (sessions ex_service) ''s2'' = Some [3]"
    "map_of (clients ex_service) 1 = Some (ex_info ''s1'')"
    "map_of (sessions ex_service) ''s1'' = Some [1, 2]"
    "sessionId (ex_info ''s1'') = ''s1''" "sessionId (ex_info ''s2'') = ''s2''"
    by (simp_all add: ex_service_def ex_info_def)
  have s: "map_of (sessions (fst (handleClose ex_service 1 1000 []))) ''s1'' = Some [2]"
    by (simp add: handleClose_def Let_def ex_service_def ex_info_def set_delete_def)
  show ?thesis
    using c a s
      handleClose_ends_session [OF c, of 3 1000 "[]"]
      handleClose_ends_session [OF c, of 1 1000 "[]"]
    by simp
qed

text \<open>
  Claim C6, as amended. \<open>handleConnection\<close> always assigns the identifier that \<open>uuidv4()\<close>
  generated: it registers the socket in \<open>clients\<close> under that identifier and in the
  session's set, and, the socket being OPEN and the write not raising, sends exactly one
  message, the \<open>connection\<close> event carrying that identifier. Of the request only the remote
  address is read: two requests with the same remote address give the same result,
  whatever session identifier the client put into the URL or the headers.
\<close>

theorem handleConnection_registers:
  "map_of (clients (fst (handleConnection e st w req uuid now))) w
     = Some \<lparr>sessionId = uuid, connectedAt = now, ip = remoteAddress req,
             isAlive = True, metadata = []\<rparr> \<and>
   (\<exists>sc. map_of (sessions (fst (handleConnection e st w req uuid now))) uuid = Some sc \<and>
         w \<in> set sc) \<and>
   (readyState e w = 1 \<and> \<not> send_raises e w \<longrightarrow>
      filter is_send (snd (handleConnection e st w req uuid now))
        = [Send w (connection_event uuid)]) \<and>
   (remoteAddress other = remoteAddress req \<longrightarrow>
      handleConnection e st w other uuid now = handleConnection e st w req uuid now)"
proof (intro conjI impI)
  show "map_of (clients (fst (handleConnection e st w req uuid now))) w
     = Some \<lparr>sessionId = uuid, connectedAt = now, ip = remoteAddress req,
             isAlive = True, metadata = []\<rparr>"
    by (simp add: handleConnection_clients update_conv')
  show "\<exists>sc. map_of (sessions (fst (handleConnection e st w req uuid now))) uuid = Some sc \<and>
         w \<in> set sc"
    by (simp add: handleConnection_sessions set_add_set)
next
  assume "readyState e w = 1 \<and> \<not> send_raises e w"
  then show "filter is_send (snd (handleConnection e st w req uuid now))
        = [Send w (connection_event uuid)]"
    by (simp add: handleConnection_def Let_def sendToClient_def)
next
  assume "remoteAddress other = remoteAddress req"
  then show "handleConnection e st w other uuid now = handleConnection e st w req uuid now"
    by (simp add: handleConnection_def Let_def)
qed

theorem handleConnection_registers_witness:
  "readyState ex_env 4 = 1 \<and> \<not> send_raises ex_env 4 \<and>
   remoteAddress (ex_request\<lparr>url := ''/''\<rparr>) = remoteAddress ex_request \<and>
   filter is_send (snd (handleConnection ex_env ex_service 4 ex_request ''u-1'' 5))
     = [Send 4 (connection_event ''u-1'')] \<and>
   handleConnection ex_env ex_service 4 (ex_request\<lparr>url := ''/''\<rparr>) ''u-1'' 5
     = handleConnection ex_env ex_service 4 ex_request ''u-1'' 5"
  using handleConnection_registers [where e = ex_env and st = ex_service and w = 4
      and req = ex_request and uuid = "''u-1''" and now = 5 and other = "ex_request\<lparr>url := ''/''\<rparr>"]
  by (simp add: ex_env_def)

text \<open>
  Claim C6 as stated fails where the client supplies a session identifier: the request
  names \<open>client-chosen\<close> in its URL and headers, and the connection is registered and
  acknowledged under the generated identifier.
\<close>

theorem handleConnection_counterexample:
  "url ex_request = ''/?sessionId=client-chosen'' \<and>
   headers ex_request = [(''x-session-id'', ''client-chosen'')] \<and>
   map_option sessionId
     (map_of (clients (fst (handleConnection ex_env new_service 1 ex_request ''generated-uuid'' 5))) 1)
     = Some ''generated-uuid'' \<and>
   sessions (fst (handleConnection ex_env new_service 1 ex_request ''generated-uuid'' 5))
     = [(''generated-uuid'', [1])] \<and>
   snd (handleConnection ex_env new_service 1 ex_request ''generated-uuid'' 5)
     = [Log ''[WebSocketService] Client connected: '',
        Send 1 (connection_event ''generated-uuid'')]"
  by (simp add: handleConnection_def Let_def new_service_def ex_request_def ex_env_def
        sendToClient_def set_add_def)

section \<open>The heartbeat\<close>

lemma heartbeat_each_ping:
  "Ping w \<in> set (snd (heartbeat_each cs)) \<longleftrightarrow> (\<exists>info. (w, info) \<in> set cs \<and> isAlive info)"
  by (induction cs rule: heartbeat_each.induct) (auto split: prod.splits)

lemma heartbeat_each_terminate:
  "Terminate w \<in> set (snd (heartbeat_each cs)) \<longleftrightarrow> (\<exists>info. (w, info) \<in> set cs \<and> \<not> isAlive info)"
  by (induction cs rule: heartbeat_each.induct) (auto split: prod.splits)

lemma heartbeat_snd: "snd (heartbeat st) = snd (heartbeat_each (clients st))"
  by (cases "heartbeat_each (clients st)") (simp add: heartbeat_def)

lemma heartbeat_ping:
  assumes "distinct (map fst (clients st))"
  shows "Ping w \<in> set (snd (heartbeat st)) \<longleftrightarrow>
           (\<exists>info. map_of (clients st) w = Some info \<and> isAlive info)"
  using assms by (simp add: heartbeat_snd heartbeat_each_ping)

lemma heartbeat_terminate:
  assumes "distinct (map fst (clients st))"
  shows "Terminate w \<in> set (snd (heartbeat st)) \<longleftrightarrow>
           (\<exists>info. map_of (clients st) w = Some info \<and> \<not> isAlive info)"
  using assms by (simp add: heartbeat_snd heartbeat_each_terminate)

lemma heartbeat_map_of:
  "map_of (clients (fst (heartbeat st))) w
     = map_option (\<lambda>i. i\<lparr>isAlive := False\<rparr>) (map_of (clients st) w)"
proof -
  have "map_of (map (\<lambda>(w, info). (w, info\<lparr>isAlive := False\<rparr>)) cs) w
          = map_option (\<lambda>i. i\<lparr>isAlive := False\<rparr>) (map_of cs w)"
    for cs :: "(ws \<times> clientInfo) list"
    by (induction cs) auto
  then show ?thesis by (simp add: heartbeat_clients)
qed

lemma heartbeat_keys: "map fst (clients (fst (heartbeat st))) = map fst (clients st)"
proof -
  have "fst \<circ> (\<lambda>(w, info). (w, info\<lparr>isAlive := False\<rparr>)) = (fst :: ws \<times> clientInfo \<Rightarrow> ws)"
    by (auto simp: fun_eq_iff)
  then show ?thesis by (simp add: heartbeat_clients)
qed

lemma step_distinct:
  assumes "distinct (map fst (clients st))"
  shows "distinct (map fst (clients (fst (step e app st i))))"
proof (cases i)
  case (Connection w req uuid now)
  then show ?thesis using assms by (simp add: handleConnection_clients distinct_update)
next
  case (Message w d)
  then show ?thesis using assms by simp
next
  case (Pong w)
  then show ?thesis using assms
    by (simp add: handlePong_def distinct_update split: option.splits)
next
  case (Close w code reason)
  then show ?thesis using assms
    by (cases "map_of (clients st) w")
       (simp_all add: handleClose_def Let_def distinct_delete split: prod.splits)
next
  case Tick
  then show ?thesis using assms by (simp add: heartbeat_keys)
qed

lemma run_distinct:
  "distinct (map fst (clients st)) \<Longrightarrow> distinct (map fst (clients (fst (run e app st evs))))"
proof (induction evs arbitrary: st)
  case Nil
  then show ?case by simp
next
  case (Cons i evs)
  show ?case
    using Cons.IH [OF step_distinct [OF Cons.prems, of e app i]]
    by (simp only: run_Cons_fst)
qed

lemma handleClose_map_of:
  "map_of (clients (fst (handleClose st w1 code reason))) w
     = (if w = w1 then None else map_of (clients st) w)"
  by (cases "map_of (clients st) w1")
     (simp_all add: handleClose_def Let_def delete_conv' split: prod.splits)

lemma handlePong_map_of:
  "map_of (clients (handlePong st w1)) w
     = (if w = w1 then map_option (\<lambda>i. i\<lparr>isAlive := True\<rparr>) (map_of (clients st) w)
        else map_of (clients st) w)"
  by (cases "map_of (clients st) w1") (simp_all add: handlePong_def update_conv')

lemma step_other:
  assumes "\<not> concerns w i"
  shows "map_of (clients (fst (step e app st i))) w = map_of (clients st) w"
  using assms
  by (cases i) (simp_all add: handleConnection_clients update_conv' handlePong_map_of
                  handleClose_map_of)

lemma run_other:
  "\<forall>i \<in> set evs. \<not> concerns w i \<Longrightarrow>
     map_of (clients (fst (run e app st evs))) w = map_of (clients st) w"
proof (induction evs arbitrary: st)
  case Nil
  then show ?case by simp
next
  case (Cons i evs)
  have "map_of (clients (fst (run e app (fst (step e app st i)) evs))) w
          = map_of (clients (fst (step e app st i))) w"
    using Cons by simp
  also have "\<dots> = map_of (clients st) w"
    using Cons.prems step_other [of w i e app st] by simp
  finally show ?case by (simp only: run_Cons_fst)
qed

lemma step_awake:
  assumes "i \<noteq> Tick" and "awake w st \<or> i = Pong w"
  shows "awake w (fst (step e app st i))"
  using assms
  by (cases i)
     (auto simp: awake_def handleConnection_clients update_conv' handlePong_map_of
        handleClose_map_of split: option.splits)

lemma run_awake:
  "Tick \<notin> set evs \<Longrightarrow> awake w st \<or> Pong w \<in> set evs \<Longrightarrow>
     awake w (fst (run e app st evs))"
proof (induction evs arbitrary: st)
  case Nil
  then show ?case by simp
next
  case (Cons i evs)
  have nt: "i \<noteq> Tick" "Tick \<notin> set evs" using Cons.prems(1) by auto
  show ?case
  proof (cases "awake w st \<or> i = Pong w")
    case True
    then have "awake w (fst (step e app st i))" using step_awake [OF nt(1)] by blast
    then show ?thesis unfolding run_Cons_fst using Cons.IH [OF nt(2)] by blast
  next
    case False
    then have "Pong w \<in> set evs" using Cons.prems(2) by auto
    then show ?thesis unfolding run_Cons_fst using Cons.IH [OF nt(2)] by blast
  qed
qed

text \<open>
  Claim C3. Take a run of the heartbeat that sends the probe to a connection, any inputs
  other than a run of the heartbeat after it, and the next run of the heartbeat, which
  happens exactly one interval of 30000 ms later. The run that sends the probe does not
  terminate the connection. If none of the inputs in between concerns the connection
  (no pong from it, no close of it), the next run terminates it and sends it no probe.
  If a pong from it is among them, the next run does not terminate it.
\<close>

theorem heartbeat_protocol:
  assumes d: "distinct (map fst (clients st))"
    and p: "Ping w \<in> set (snd (heartbeat st))"
    and t: "Tick \<notin> set evs"
  shows "Terminate w \<notin> set (snd (heartbeat st)) \<and>
         ((\<forall>i \<in> set evs. \<not> concerns w i) \<longrightarrow>
            Terminate w \<in> set (snd (heartbeat (fst (run e app (fst (heartbeat st)) evs)))) \<and>
            Ping w \<notin> set (snd (heartbeat (fst (run e app (fst (heartbeat st)) evs))))) \<and>
         (Pong w \<in> set evs \<longrightarrow>
            Terminate w \<notin> set (snd (heartbeat (fst (run e app (fst (heartbeat st)) evs))))) \<and>
         tick_time (Suc n) = tick_time n + 30000"
proof (intro conjI impI)
  obtain info where info: "map_of (clients st) w = Some info" "isAlive info"
    using p heartbeat_ping [OF d] by blast
  show "Terminate w \<notin> set (snd (heartbeat st))"
    using info heartbeat_terminate [OF d, of w] by simp
  let ?st1 = "fst (heartbeat st)"
  let ?st2 = "fst (run e app ?st1 evs)"
  have d1: "distinct (map fst (clients ?st1))" using d by (simp add: heartbeat_keys)
  have d2: "distinct (map fst (clients ?st2))" using d1 by (rule run_distinct)
  have m1: "map_of (clients ?st1) w = Some (info\<lparr>isAlive := False\<rparr>)"
    using info by (simp add: heartbeat_map_of)
  {
    assume q: "\<forall>i \<in> set evs. \<not> concerns w i"
    have m2: "map_of (clients ?st2) w = Some (info\<lparr>isAlive := False\<rparr>)"
      using run_other [OF q] m1 by simp
    show "Terminate w \<in> set (snd (heartbeat ?st2))"
      using m2 heartbeat_terminate [OF d2, of w] by simp
    show "Ping w \<notin> set (snd (heartbeat ?st2))"
      using m2 heartbeat_ping [OF d2, of w] by simp
  }
  {
    assume r: "Pong w \<in> set evs"
    have "awake w ?st2" using run_awake [OF t] r by blast
    then show "Terminate w \<notin> set (snd (heartbeat ?st2))"
      using heartbeat_terminate [OF d2, of w] by (auto simp: awake_def)
  }
  show "tick_time (Suc n) = tick_time n + 30000"
    by (simp add: tick_time_def heartbeat_interval_ms_def)
qed

theorem heartbeat_protocol_witness:
  "distinct (map fst (clients ex_service)) \<and>
   Ping 1 \<in> set (snd (heartbeat ex_service)) \<and>
   Tick \<notin> set [Pong 2, Close 3 1000 []] \<and>
   \<not> concerns 1 (Pong 2) \<and> \<not> concerns 1 (Close 3 1000 []) \<and>
   Terminate 1 \<in> set (snd (heartbeat (fst (run ex_env ex_app
      (fst (heartbeat ex_service)) [Pong 2, Close 3 1000 []])))) \<and>
   Pong 2 \<in> set [Pong 2, Close 3 1000 []] \<and>
   Terminate 2 \<notin> set (snd (heartbeat (fst (run ex_env ex_app
      (fst (heartbeat ex_service)) [Pong 2, Close 3 1000 []])))) \<and>
   tick_time 1 = tick_time 0 + 30000"
proof -
  have d: "distinct (map fst (clients ex_service))"
    by (simp add: ex_service_def)
  have p: "Ping 1 \<in> set (snd (heartbeat ex_service))" "Ping 2 \<in> set (snd (heartbeat ex_service))"
    by (simp_all add: heartbeat_def ex_service_def ex_info_def)
  have t: "Tick \<notin> set [Pong 2, Close 3 1000 []]" by simp
  have q: "\<forall>i \<in> set [Pong 2, Close 3 1000 []]. \<not> concerns 1 i" by simp
  show ?thesis
    using d p t q
      heartbeat_protocol [OF d p(1) t, of ex_env ex_app 0]
      heartbeat_protocol [OF d p(2) t, of ex_env ex_app 0]
    by simp
qed

section \<open>Inbound messages and start-up\<close>



text \<open>
  No payload is emitted as \<open>json_message\<close> or as \<open>text_message\<close>: the handlers registered
  for these two events are not run by any inbound message.
\<close>

lemma handleMessage_emits_binary_only:
  "a \<in> set (handleMessage st w d) \<Longrightarrow> \<exists>info. a = Emit (Binary_message w info d)"
  by (auto simp: handleMessage_def split: option.splits)





lemma startServer_outcome:
  "fst (startServer se) =
     (if database_error se = None \<and> redis_ping_error se = None
      then Listening new_service else Exited 1)"
  by (simp add: startServer_def initializeServices_def WebSocketService_new_def Let_def
           split: option.splits)

lemma startServer_actions:
  assumes "database_error se = None" and "redis_ping_error se = None"
  shows "snd (startServer se) =
           (case s3_error se of None \<Rightarrow> [] | Some err \<Rightarrow> [Log ''S3 initialization warning:'']) @
           setupRedisSubscriptions (subscribe_error se) @
           [Log ''WebSocket Service ready'', Log ''Server running'']"
  using assms
  by (simp add: startServer_def initializeServices_def WebSocketService_new_def Let_def
           split: option.splits)

text \<open>
  Claim C8, as amended. Whether the process ends up listening or exits does not depend
  on the outcome of the Redis subscription. When the database and the Redis ping are
  fine the process listens, having asked for the subscription to all channels, which
  are exactly the channels its message handler serves; a failed subscription is only
  logged.
\<close>

theorem subscription_failure_is_logged:
  "fst (startServer (se\<lparr>subscribe_error := x\<rparr>)) = fst (startServer se) \<and>
   (database_error se = None \<and> redis_ping_error se = None \<longrightarrow>
      fst (startServer se) = Listening new_service \<and>
      Subscribe subscribed_channels \<in> set (snd (startServer se)) \<and>
      (subscribe_error se \<noteq> None \<longrightarrow>
         Log ''[WebSocketService] Redis subscription error:'' \<in> set (snd (startServer se)))) \<and>
   (channel_handler c \<noteq> None \<longleftrightarrow> c \<in> set subscribed_channels)"
proof (intro conjI impI)
  show "fst (startServer (se\<lparr>subscribe_error := x\<rparr>)) = fst (startServer se)"
    by (simp add: startServer_outcome)
  show "(channel_handler c \<noteq> None) = (c \<in> set subscribed_channels)"
    by (simp add: channel_handler_def subscribed_channels_def)
next
  assume "database_error se = None \<and> redis_ping_error se = None"
  then show "fst (startServer se) = Listening new_service"
    by (simp add: startServer_outcome)
next
  assume "database_error se = None \<and> redis_ping_error se = None"
  then show "Subscribe subscribed_channels \<in> set (snd (startServer se))"
    by (simp add: startServer_actions setupRedisSubscriptions_def)
next
  assume "database_error se = None \<and> redis_ping_error se = None"
    and "subscribe_error se \<noteq> None"
  then show "Log ''[WebSocketService] Redis subscription error:'' \<in> set (snd (startServer se))"
    by (auto simp: startServer_actions setupRedisSubscriptions_def)
qed

theorem subscription_failure_is_logged_witness:
  "database_error failed_subscription = None \<and> redis_ping_error failed_subscription = None \<and>
   subscribe_error failed_subscription \<noteq> None \<and>
   fst (startServer failed_subscription) = Listening new_service \<and>
   Log ''[WebSocketService] Redis subscription error:'' \<in> set (snd (startServer failed_subscription))"
  using subscription_failure_is_logged [where se = failed_subscription]
  by (simp add: failed_subscription_def)

text \<open>
  Claim C8 as stated fails where the subscription is rejected: the error is logged, the
  service reports ready and the server runs.
\<close>

theorem subscription_counterexample:
  "subscribe_error failed_subscription = Some ''ECONNREFUSED'' \<and>
   startServer failed_subscription
     = (Listening new_service,
        [Subscribe [''blink-updates'', ''sensor-updates'', ''inference-results'', ''broadcast''],
         Log ''[WebSocketService] Redis subscription error:'',
         Log ''WebSocket Service ready'', Log ''Server running''])"
  by (simp add: failed_subscription_def startServer_def initializeServices_def
        WebSocketService_new_def setupRedisSubscriptions_def subscribed_channels_def)

section \<open>Retries\<close>

lemma retry_loop_all_fail:
  assumes "\<And>k s. \<not> fst (handler k s)"
  shows "fst (retry_loop opts handler made left s) = Failed \<and>
         fst (snd (retry_loop opts handler made left s)) = made + left \<and>
         fst (snd (snd (retry_loop opts handler made left s)))
           = map (backoff_delay opts) [Suc made ..< made + left]"
proof (induction left arbitrary: made s)
  case 0
  then show ?case by simp
next
  case (Suc left)
  obtain s1 where h: "handler (made + 1) s = (False, s1)"
    using assms [of "made + 1" s] by (cases "handler (made + 1) s") auto
  show ?case
  proof (cases "left = 0")
    case True
    then show ?thesis using h by simp
  next
    case False
    obtain st n ds s2 where r: "retry_loop opts handler (made + 1) left s1 = (st, n, ds, s2)"
      by (cases "retry_loop opts handler (made + 1) left s1") auto
    have ih: "st = Failed" "n = made + 1 + left"
      "ds = map (backoff_delay opts) [Suc (made + 1) ..< made + 1 + left]"
      using Suc.IH [of "made + 1" s1] r by simp_all
    have e: "retry_loop opts handler made (Suc left) s
               = (st, n, backoff_delay opts (made + 1) # ds, s2)"
      using h False r by simp
    have u: "[Suc made ..< made + Suc left] = (made + 1) # [Suc (made + 1) ..< made + 1 + left]"
      using False by (simp add: upt_conv_Cons)
    show ?thesis
      unfolding e u ih by simp
  qed
qed

lemma retry_loop_bound:
  "fst (snd (retry_loop opts handler made left s)) \<le> made + left"
proof (induction left arbitrary: made s)
  case 0
  then show ?case by simp
next
  case (Suc left)
  obtain ok s1 where h: "handler (made + 1) s = (ok, s1)"
    by (cases "handler (made + 1) s") auto
  obtain st n ds s2 where r: "retry_loop opts handler (made + 1) left s1 = (st, n, ds, s2)"
    by (cases "retry_loop opts handler (made + 1) left s1") auto
  have "n \<le> made + 1 + left" using Suc.IH [of "made + 1" s1] r by simp
  then show ?case using h r by (cases ok) simp_all
qed

lemma exponential_increasing:
  assumes "type (backoff opts) = Exponential" and "0 < delay (backoff opts)"
    and "1 \<le> j" and "j < k"
  shows "backoff_delay opts j < backoff_delay opts k"
proof -
  have "j - 1 < k - 1" using assms(3,4) by simp
  then have "(2::nat) ^ (j - 1) < 2 ^ (k - 1)" by simp
  then show ?thesis using assms(1,2) by (simp add: backoff_delay_def)
qed

text \<open>
  Claim C5. A job whose handler raises on every attempt ends as failed after exactly as
  many attempts as its options allow, with the delays of its backoff policy between them,
  and no handler, whatever it does, is run more often than that. The delay of a fixed
  policy is constant and the delay of an exponential policy grows strictly with the
  number of failed attempts. The inference queue allows 2 attempts with the single delay
  5000 ms between them; the frame queue allows 3 attempts with the delays 2000 ms and
  4000 ms.
\<close>

theorem failing_job_attempts:
  "((\<forall>k s. \<not> fst (handler k s)) \<longrightarrow>
      fst (run_job opts handler s) = Failed \<and>
      fst (snd (run_job opts handler s)) = attempts opts \<and>
      fst (snd (snd (run_job opts handler s))) = map (backoff_delay opts) [1 ..< attempts opts]) \<and>
   fst (snd (run_job opts handler s)) \<le> attempts opts \<and>
   (type (backoff opts) = Fixed \<longrightarrow> backoff_delay opts k = delay (backoff opts)) \<and>
   (type (backoff opts) = Exponential \<and> 0 < delay (backoff opts) \<and> 1 \<le> j \<and> j < k \<longrightarrow>
      backoff_delay opts j < backoff_delay opts k) \<and>
   attempts addInferenceJob_opts = 2 \<and>
   map (backoff_delay addInferenceJob_opts) [1 ..< attempts addInferenceJob_opts] = [5000] \<and>
   attempts addFrameJob_opts = 3 \<and>
   map (backoff_delay addFrameJob_opts) [1 ..< attempts addFrameJob_opts] = [2000, 4000]"
proof (intro conjI impI)
  assume a: "\<forall>k s. \<not> fst (handler k s)"
  then have b: "\<And>k s. \<not> fst (handler k s)" by simp
  show "fst (run_job opts handler s) = Failed"
    and "fst (snd (run_job opts handler s)) = attempts opts"
    and "fst (snd (snd (run_job opts handler s))) = map (backoff_delay opts) [1 ..< attempts opts]"
    using retry_loop_all_fail [of handler opts 0 "attempts opts" s, OF b]
    by (simp_all add: run_job_def)
next
  show "fst (snd (run_job opts handler s)) \<le> attempts opts"
    using retry_loop_bound [of opts handler 0 "attempts opts" s] by (simp add: run_job_def)
next
  assume "type (backoff opts) = Fixed"
  then show "backoff_delay opts k = delay (backoff opts)" by (simp add: backoff_delay_def)
next
  assume "type (backoff opts) = Exponential \<and> 0 < delay (backoff opts) \<and> 1 \<le> j \<and> j < k"
  then show "backoff_delay opts j < backoff_delay opts k"
    using exponential_increasing by blast
next
  show "attempts addInferenceJob_opts = 2" by (simp add: addInferenceJob_opts_def)
  show "attempts addFrameJob_opts = 3" by (simp add: addFrameJob_opts_def)
  have "[1 ..< 2] = [1::nat]" by (simp add: upt_rec)
  then show "map (backoff_delay addInferenceJob_opts) [1 ..< attempts addInferenceJob_opts] = [5000]"
    by (simp add: addInferenceJob_opts_def backoff_delay_def)
  have "[1 ..< 3] = [1::nat, 2]" by (simp add: upt_rec)
  then show "map (backoff_delay addFrameJob_opts) [1 ..< attempts addFrameJob_opts] = [2000, 4000]"
    by (simp add: addFrameJob_opts_def backoff_delay_def)
qed

theorem failing_job_attempts_witness:
  "(\<forall>k s. \<not> fst (always_raises k s)) \<and>
   fst (run_job addInferenceJob_opts always_raises ()) = Failed \<and>
   fst (snd (run_job addInferenceJob_opts always_raises ())) = 2 \<and>
   fst (snd (snd (run_job addInferenceJob_opts always_raises ()))) = [5000] \<and>
   fst (run_job addFrameJob_opts always_raises ()) = Failed \<and>
   fst (snd (run_job addFrameJob_opts always_raises ())) = 3 \<and>
   fst (snd (snd (run_job addFrameJob_opts always_raises ()))) = [2000, 4000] \<and>
   type (backoff addFrameJob_opts) = Exponential \<and> 0 < delay (backoff addFrameJob_opts) \<and>
   (1::nat) \<le> 1 \<and> (1::nat) < 2 \<and>
   backoff_delay addFrameJob_opts 1 < backoff_delay addFrameJob_opts 2 \<and>
   type (backoff addInferenceJob_opts) = Fixed \<and>
   backoff_delay addInferenceJob_opts 1 = delay (backoff addInferenceJob_opts)"
proof -
  have a: "\<forall>k s. \<not> fst (always_raises k s)" by (simp add: always_raises_def)
  have b: "type (backoff addFrameJob_opts) = Exponential" "0 < delay (backoff addFrameJob_opts)"
    "type (backoff addInferenceJob_opts) = Fixed"
    by (simp_all add: addFrameJob_opts_def addInferenceJob_opts_def)
  note t1 = failing_job_attempts [where handler = always_raises and opts = addInferenceJob_opts
        and s = "()" and j = 1 and k = 1]
  note t2 = failing_job_attempts [where handler = always_raises and opts = addFrameJob_opts
        and s = "()" and j = 1 and k = 2]
  have c1: "fst (run_job addInferenceJob_opts always_raises ()) = Failed"
    "fst (snd (run_job addInferenceJob_opts always_raises ())) = 2"
    "fst (snd (snd (run_job addInferenceJob_opts always_raises ()))) = [5000]"
    "backoff_delay addInferenceJob_opts 1 = delay (backoff addInferenceJob_opts)"
    using t1 a b(3) by metis+
  have c2: "fst (run_job addFrameJob_opts always_raises ()) = Failed"
    "fst (snd (run_job addFrameJob_opts always_raises ())) = 3"
    "fst (snd (snd (run_job addFrameJob_opts always_raises ()))) = [2000, 4000]"
    using t2 a by metis+
  have c3: "backoff_delay addFrameJob_opts 1 < backoff_delay addFrameJob_opts 2"
    using t2 b(1,2) by simp
  show ?thesis using a b c1 c2 c3 by simp
qed

section \<open>The inference worker\<close>

lemma updateProgressD:
  "updateProgress ae n w = (res, w1) \<Longrightarrow>
     inference_results w1 = inference_results w \<and> frames w1 = frames w \<and>
     (\<forall>err. res = Inl err \<longrightarrow> updateProgress_error ae n = Some err)"
  by (auto simp: updateProgress_def split: option.splits)

lemma publish_resultD:
  "publish_result ae j sc w = (res, w1) \<Longrightarrow>
     inference_results w1 = inference_results w \<and> frames w1 = frames w \<and>
     (\<forall>err. res = Inl err \<longrightarrow> publish_error ae = Some err)"
  by (auto simp: publish_result_def split: option.splits if_splits)

lemma markFrameProcessedD:
  "markFrameProcessed ae fid w = (res, w1) \<Longrightarrow>
     inference_results w1 = inference_results w \<and>
     (case res of Inl err \<Rightarrow> frames w1 = frames w | Inr u \<Rightarrow> frames w1 = marked fid (frames w))"
  by (auto simp: markFrameProcessed_def split: option.splits)

lemma createD:
  "InferenceResult_create ae r w = (res, w1) \<Longrightarrow>
     frames w1 = frames w \<and>
     (case res of
        Inl err \<Rightarrow> inference_results w1 = inference_results w
      | Inr rid \<Rightarrow> inference_results w1 = inference_results w @ [r] \<and>
                   rid = length (inference_results w) + 1)"
  by (auto simp: InferenceResult_create_def split: option.splits if_splits)

lemma processFrameD:
  "processFrame ae fid key w = (res, w1) \<Longrightarrow>
     frames w1 = frames w \<and>
     (case res of
        Inl err \<Rightarrow> inference_results w1 = inference_results w
      | Inr sc \<Rightarrow>
          inference_results w1 = inference_results w @
            [\<lparr>frame_id = fid, emotion_label = emotionLabel sc, emotion_confidence = emotionConf sc,
              redness_label = rednessLabel sc, redness_confidence = rednessConf sc,
              processing_time_ms = None\<rparr>] \<and>
          first_prediction (fst (runInference ae key ''emotion-esmd2/2''))
            = Inr (emotionLabel sc, emotionConf sc) \<and>
          first_prediction (fst (runInference ae key ''redness-of-eyes-aju4x/1''))
            = Inr (rednessLabel sc, rednessConf sc))"
  by (auto simp: processFrame_def Let_def split: prod.splits sum.splits option.splits)

lemma try_block_shape:
  assumes "try_block ae j w = (res, w1)"
  shows "\<exists>rows. inference_results w1 = inference_results w @ rows \<and>
           (\<forall>x \<in> set rows. frame_id x = frameId j \<and> (is_sentinel x \<longleftrightarrow> scored_marker ae j)) \<and>
           (\<forall>r. res = Inr r \<longrightarrow> rows \<noteq> [] \<and> frames w1 = marked (frameId j) (frames w) \<and>
                 (error_marked (results r) \<longleftrightarrow> scored_marker ae j)) \<and>
           (\<forall>err. res = Inl err \<longrightarrow>
                 frames w1 = frames w \<or>
                 frames w1 = marked (frameId j) (frames w) \<and>
                 (publish_error ae = Some err \<or> updateProgress_error ae 100 = Some err))"
  using assms unfolding try_block_def Let_def
  by (auto split: prod.splits sum.splits
           dest!: updateProgressD publish_resultD markFrameProcessedD createD processFrameD
           simp: is_sentinel_def scored_marker_def error_marked_def)


lemma sentinel_create:
  "InferenceResult_create ae (sentinel_row ae j) w =
     (case create_error ae (sentinel_row ae j) of
        Some err \<Rightarrow> (Inl err, w)
      | None \<Rightarrow> (Inr (length (inference_results w) + 1),
                 w\<lparr>inference_results := inference_results w @ [sentinel_row ae j]\<rparr>))"
proof -
  have "valid_confidence (emotion_confidence (sentinel_row ae j))"
    "valid_confidence (redness_confidence (sentinel_row ae j))"
    by (simp_all add: sentinel_row_def valid_confidence_def)
  then show ?thesis by (simp add: InferenceResult_create_def)
qed

lemma sentinel_row_is_sentinel:
  "is_sentinel (sentinel_row ae j)" "frame_id (sentinel_row ae j) = frameId j"
  by (simp_all add: is_sentinel_def sentinel_row_def)

lemma processInferenceJob_Inr:
  "processInferenceJob ae j w = (Inr r, w1) \<longleftrightarrow> try_block ae j w = (Inr r, w1)"
  by (auto simp: processInferenceJob_def Let_def split: prod.splits sum.splits)

lemma processInferenceJob_Inl:
  assumes "processInferenceJob ae j w = (Inl err, w1)"
  shows "\<exists>w0. try_block ae j w = (Inl err, w0) \<and> frames w1 = frames w0 \<and>
           inference_results w1 = inference_results w0 @
             (if create_error ae (sentinel_row ae j) = None then [sentinel_row ae j] else [])"
  using assms
  by (auto simp: processInferenceJob_def Let_def sentinel_create
           split: prod.splits sum.splits option.splits)

lemma processInferenceJob_rethrows:
  assumes "try_block ae j w = (Inl err, w0)"
  shows "fst (processInferenceJob ae j w) = Inl err"
    and "inference_results (snd (processInferenceJob ae j w))
           = inference_results w0 @
             (if create_error ae (sentinel_row ae j) = None then [sentinel_row ae j] else [])"
    and "create_error ae (sentinel_row ae j) \<noteq> None \<Longrightarrow>
           last (console (snd (processInferenceJob ae j w)))
             = ''[InferenceWorker] Failed to log error:''"
  using assms
  by (auto simp: processInferenceJob_def Let_def sentinel_create split: option.splits)

lemma count_rows:
  assumes "\<forall>x \<in> set rows. frame_id x = fid \<and> (is_sentinel x \<longleftrightarrow> m)"
  shows "length (filter (\<lambda>r. frame_id r = fid \<and> is_sentinel r) rows) = (if m then length rows else 0)"
    and "length (filter (\<lambda>r. frame_id r = fid \<and> \<not> is_sentinel r) rows)
           = (if m then 0 else length rows)"
  using assms by (induction rows) auto

lemma attempt_success:
  assumes "processInferenceJob ae j w = (Inr r, w1)" and "\<not> error_marked (results r)"
  shows "sentinel_count w1 (frameId j) = sentinel_count w (frameId j)"
    and "scored_count w (frameId j) < scored_count w1 (frameId j)"
    and "frames w1 = marked (frameId j) (frames w)"
proof -
  have t: "try_block ae j w = (Inr r, w1)" using assms(1) by (simp add: processInferenceJob_Inr)
  obtain rows where rows: "inference_results w1 = inference_results w @ rows"
    "\<forall>x \<in> set rows. frame_id x = frameId j \<and> (is_sentinel x \<longleftrightarrow> scored_marker ae j)"
    "rows \<noteq> []" "frames w1 = marked (frameId j) (frames w)"
    "error_marked (results r) \<longleftrightarrow> scored_marker ae j"
    using try_block_shape [OF t] by blast
  have m: "\<not> scored_marker ae j" using rows(5) assms(2) by simp
  show "sentinel_count w1 (frameId j) = sentinel_count w (frameId j)"
    using count_rows(1) [OF rows(2)] m by (simp add: sentinel_count_def rows(1))
  show "scored_count w (frameId j) < scored_count w1 (frameId j)"
    using count_rows(2) [OF rows(2)] m rows(3) by (simp add: scored_count_def rows(1))
  show "frames w1 = marked (frameId j) (frames w)" by (rule rows(4))
qed




lemmas example_defs =
  ex_job_def ex_world_def ok_env_def happy_response_def scorer_down_def publish_down_def
  database_down_def publish_always_down_def model_table_def raw_table_def
  model_table_always_def raw_table_always_def

lemmas worker_defs =
  processInferenceJob_def try_block_def processFrame_def runInference_def first_prediction_def
  or_string_def or_number_def InferenceResult_create_def valid_confidence_def
  markFrameProcessed_def marked_def updateProgress_def publish_result_def result_event_def
  confidence_json_def sentinel_row_def is_sentinel_def sentinel_count_def scored_count_def
  processed_def error_marked_def scored_marker_def








lemma updateProgress_ok:
  "updateProgress ae n w = (Inr u, w1) \<Longrightarrow> updateProgress_error ae n = None"
  by (auto simp: updateProgress_def split: option.splits)

lemma processFrame_ok:
  "processFrame ae fid key w = (Inr sc, w1) \<Longrightarrow> query_error ae = None"
  by (auto simp: processFrame_def Let_def split: prod.splits sum.splits option.splits)

lemma create_ok:
  "InferenceResult_create ae r w = (Inr rid, w1) \<Longrightarrow> create_error ae r = None"
  by (auto simp: InferenceResult_create_def split: option.splits if_splits)

lemma markFrameProcessed_ok:
  "markFrameProcessed ae fid w = (Inr u, w1) \<Longrightarrow> update_error ae = None"
  by (auto simp: markFrameProcessed_def split: option.splits)

lemma publish_result_ok:
  "publish_result ae j sc w = (Inr u, w1) \<Longrightarrow>
     (\<forall>sid. job_sessionId j = Some sid \<and> sid \<noteq> [] \<longrightarrow> publish_error ae = None)"
  by (auto simp: publish_result_def split: option.splits if_splits)

lemma try_block_returns:
  assumes "try_block ae j w = (Inr r, w1)"
  shows "updateProgress_error ae 10 = None \<and> query_error ae = None \<and>
         updateProgress_error ae 70 = None \<and> updateProgress_error ae 90 = None \<and>
         update_error ae = None \<and> updateProgress_error ae 100 = None \<and>
         (\<forall>sid. job_sessionId j = Some sid \<and> sid \<noteq> [] \<longrightarrow> publish_error ae = None) \<and>
         create_error ae
           \<lparr>frame_id = frameId j, emotion_label = emotionLabel (results r),
            emotion_confidence = emotionConf (results r),
            redness_label = rednessLabel (results r),
            redness_confidence = rednessConf (results r),
            processing_time_ms = Some (now_create ae - startTime ae)\<rparr> = None"
  using assms unfolding try_block_def Let_def
  by (auto split: prod.splits sum.splits
           dest: updateProgress_ok processFrame_ok create_ok markFrameProcessed_ok
                 publish_result_ok)

lemma create_rejected:
  assumes "InferenceResult_create ae r w = (res, w1)" and "\<forall>r. create_error ae r \<noteq> None"
  shows "frames w1 = frames w \<and> (\<forall>rid. res \<noteq> Inr rid)"
proof -
  have "create_error ae r \<noteq> None" using assms(2) by blast
  then show ?thesis
    using assms(1) by (auto simp: InferenceResult_create_def split: option.splits if_splits)
qed

lemma processFrame_rejected:
  "processFrame ae fid key w = (res, w1) \<Longrightarrow> query_error ae \<noteq> None \<Longrightarrow>
     frames w1 = frames w \<and> (\<forall>sc. res \<noteq> Inr sc)"
  by (auto simp: processFrame_def Let_def split: prod.splits sum.splits option.splits)

lemma processFrame_frames:
  "processFrame ae fid key w = (res, w1) \<Longrightarrow> frames w1 = frames w"
  by (auto simp: processFrame_def Let_def split: prod.splits sum.splits option.splits)

lemma updateProgress_frames:
  "updateProgress ae n w = (res, w1) \<Longrightarrow> frames w1 = frames w"
  by (auto simp: updateProgress_def split: option.splits)

lemma try_block_model_table:
  assumes "try_block ae j w = (res, w1)" and h: "query_error ae \<noteq> None"
  shows "frames w1 = frames w \<and> (\<forall>r. res \<noteq> Inr r)"
  using assms(1) unfolding try_block_def Let_def
  by (auto split: prod.splits sum.splits
           dest!: updateProgress_frames processFrame_rejected [OF _ h])

lemma try_block_raw_table:
  assumes "try_block ae j w = (res, w1)" and h: "\<forall>r. create_error ae r \<noteq> None"
  shows "frames w1 = frames w \<and> (\<forall>r. res \<noteq> Inr r)"
  using assms(1) unfolding try_block_def Let_def
  by (auto split: prod.splits sum.splits
           dest!: updateProgress_frames processFrame_frames create_rejected [OF _ h])

text \<open>
  On the tables that the repository creates itself no attempt returns a result. Where
  \<open>processFrame\<close>'s own \<open>INSERT\<close> is rejected (the table made from the model) the attempt
  fails before it has written a row, and where the inserts through the model are
  rejected (the table made by \<open>initDB\<close>) it fails at the result insert and no sentinel row
  can be written either; in both cases \<open>markFrameProcessed\<close> is not reached.
\<close>

lemma attempt_fails_on_repository_tables:
  assumes "query_error ae \<noteq> None \<or> (\<forall>r. create_error ae r \<noteq> None)"
  shows "\<exists>err. fst (processInferenceJob ae j w) = Inl err"
    and "frames (snd (processInferenceJob ae j w)) = frames w"
proof -
  obtain res w0 where t: "try_block ae j w = (res, w0)"
    by (cases "try_block ae j w") blast
  have k: "frames w0 = frames w \<and> (\<forall>r. res \<noteq> Inr r)"
    using assms try_block_model_table [OF t] try_block_raw_table [OF t] by blast
  then obtain err where e: "res = Inl err" by (cases res) auto
  have f: "fst (processInferenceJob ae j w) = Inl err"
    using processInferenceJob_rethrows(1) [of ae j w err w0] t e by simp
  then show "\<exists>err. fst (processInferenceJob ae j w) = Inl err" by blast
  have "processInferenceJob ae j w = (Inl err, snd (processInferenceJob ae j w))"
    using f by (simp add: prod_eq_iff)
  from processInferenceJob_Inl [OF this] t e k
  show "frames (snd (processInferenceJob ae j w)) = frames w" by auto
qed

lemma scorer_raises_absorbed:
  assumes "scorer ae key ''emotion-esmd2/2'' = Inl x1"
    and "scorer ae key ''redness-of-eyes-aju4x/1'' = Inl x2"
  shows "fst (processFrame ae fid key w) =
           (case query_error ae of
              Some err \<Rightarrow> Inl err
            | None \<Rightarrow> Inr \<lparr>emotionLabel = ''Unknown'', emotionConf = None,
                           rednessLabel = ''Unknown'', rednessConf = None\<rparr>)"
  using assms
  by (simp add: processFrame_def runInference_def first_prediction_def Let_def
        split: option.splits)

text \<open>
  Claim C4, as amended. When an awaited call of the worker's \<open>try\<close> block raises, the
  worker raises that same error again after trying to insert a sentinel row (labels
  \<open>ERROR\<close>, confidences \<open>null\<close>, for the job's frame): the row is appended when the insert
  works; when it does not, the table is left as the block left it, the failure is
  logged, and the error raised is still the original one. The block only returns a
  result when none of the progress reports, \<open>processFrame\<close>'s insert, the result insert,
  \<open>markFrameProcessed\<close> and, for a job with a session, the publish call raised. An
  exception inside the scoring call does not reach the worker: when both scoring calls
  raise, \<open>processFrame\<close> scores the frame as \<open>Unknown\<close> with no confidence and fails only
  if its own insert fails.
\<close>

theorem worker_raises_original_error:
  "(try_block ae j w = (Inl err, w0) \<longrightarrow>
      fst (processInferenceJob ae j w) = Inl err \<and>
      inference_results (snd (processInferenceJob ae j w))
        = inference_results w0 @
          (if create_error ae (sentinel_row ae j) = None then [sentinel_row ae j] else []) \<and>
      (create_error ae (sentinel_row ae j) \<noteq> None \<longrightarrow>
         last (console (snd (processInferenceJob ae j w)))
           = ''[InferenceWorker] Failed to log error:'')) \<and>
   is_sentinel (sentinel_row ae j) \<and> frame_id (sentinel_row ae j) = frameId j \<and>
   (try_block ae j w = (Inr r, w1) \<longrightarrow>
      processInferenceJob ae j w = (Inr r, w1) \<and>
      updateProgress_error ae 10 = None \<and> query_error ae = None \<and>
      updateProgress_error ae 70 = None \<and> updateProgress_error ae 90 = None \<and>
      update_error ae = None \<and> updateProgress_error ae 100 = None \<and>
      (\<forall>sid. job_sessionId j = Some sid \<and> sid \<noteq> [] \<longrightarrow> publish_error ae = None) \<and>
      create_error ae
        \<lparr>frame_id = frameId j, emotion_label = emotionLabel (results r),
         emotion_confidence = emotionConf (results r),
         redness_label = rednessLabel (results r),
         redness_confidence = rednessConf (results r),
         processing_time_ms = Some (now_create ae - startTime ae)\<rparr> = None) \<and>
   (scorer ae (s3Key j) ''emotion-esmd2/2'' = Inl x1 \<and>
    scorer ae (s3Key j) ''redness-of-eyes-aju4x/1'' = Inl x2 \<longrightarrow>
      fst (processFrame ae (frameId j) (s3Key j) w) =
        (case query_error ae of
           Some e \<Rightarrow> Inl e
         | None \<Rightarrow> Inr \<lparr>emotionLabel = ''Unknown'', emotionConf = None,
                        rednessLabel = ''Unknown'', rednessConf = None\<rparr>))"
proof (intro conjI impI)
  assume a: "try_block ae j w = (Inl err, w0)"
  show "fst (processInferenceJob ae j w) = Inl err"
    and "inference_results (snd (processInferenceJob ae j w))
        = inference_results w0 @
          (if create_error ae (sentinel_row ae j) = None then [sentinel_row ae j] else [])"
    using processInferenceJob_rethrows(1,2) [OF a] by simp_all
  show "last (console (snd (processInferenceJob ae j w)))
           = ''[InferenceWorker] Failed to log error:''"
    if "create_error ae (sentinel_row ae j) \<noteq> None"
    using processInferenceJob_rethrows(3) [OF a that] .
next
  show "is_sentinel (sentinel_row ae j)" "frame_id (sentinel_row ae j) = frameId j"
    by (rule sentinel_row_is_sentinel)+
next
  assume a: "try_block ae j w = (Inr r, w1)"
  show "processInferenceJob ae j w = (Inr r, w1)"
    using a by (simp add: processInferenceJob_Inr)
  show "updateProgress_error ae 10 = None" "query_error ae = None"
    "updateProgress_error ae 70 = None" "updateProgress_error ae 90 = None"
    "update_error ae = None" "updateProgress_error ae 100 = None"
    "\<forall>sid. job_sessionId j = Some sid \<and> sid \<noteq> [] \<longrightarrow> publish_error ae = None"
    "create_error ae
        \<lparr>frame_id = frameId j, emotion_label = emotionLabel (results r),
         emotion_confidence = emotionConf (results r),
         redness_label = rednessLabel (results r),
         redness_confidence = rednessConf (results r),
         processing_time_ms = Some (now_create ae - startTime ae)\<rparr> = None"
    using try_block_returns [OF a] by simp_all
next
  assume "scorer ae (s3Key j) ''emotion-esmd2/2'' = Inl x1 \<and>
    scorer ae (s3Key j) ''redness-of-eyes-aju4x/1'' = Inl x2"
  then show "fst (processFrame ae (frameId j) (s3Key j) w) =
        (case query_error ae of
           Some e \<Rightarrow> Inl e
         | None \<Rightarrow> Inr \<lparr>emotionLabel = ''Unknown'', emotionConf = None,
                        rednessLabel = ''Unknown'', rednessConf = None\<rparr>)"
    using scorer_raises_absorbed by simp
qed

theorem worker_raises_original_error_witness:
  "fst (try_block publish_down ex_job ex_world) = Inl ''ECONNRESET'' \<and>
   fst (processInferenceJob publish_down ex_job ex_world) = Inl ''ECONNRESET'' \<and>
   create_error publish_down (sentinel_row publish_down ex_job) = None \<and>
   inference_results (snd (processInferenceJob publish_down ex_job ex_world))
     = inference_results (snd (try_block publish_down ex_job ex_world)) @
       [sentinel_row publish_down ex_job] \<and>
   fst (try_block database_down ex_job ex_world) = Inl ''ECONNREFUSED'' \<and>
   create_error database_down (sentinel_row database_down ex_job) \<noteq> None \<and>
   fst (processInferenceJob database_down ex_job ex_world) = Inl ''ECONNREFUSED'' \<and>
   inference_results (snd (processInferenceJob database_down ex_job ex_world)) = [] \<and>
   last (console (snd (processInferenceJob database_down ex_job ex_world)))
     = ''[InferenceWorker] Failed to log error:'' \<and>
   fst (try_block ok_env ex_job ex_world) = fst (processInferenceJob ok_env ex_job ex_world) \<and>
   publish_error ok_env = None \<and>
   scorer scorer_down (s3Key ex_job) ''emotion-esmd2/2'' = Inl ''ETIMEDOUT'' \<and>
   scorer scorer_down (s3Key ex_job) ''redness-of-eyes-aju4x/1'' = Inl ''ETIMEDOUT'' \<and>
   fst (processFrame scorer_down (frameId ex_job) (s3Key ex_job) ex_world)
     = Inr \<lparr>emotionLabel = ''Unknown'', emotionConf = None,
            rednessLabel = ''Unknown'', rednessConf = None\<rparr>"
proof -
  let ?t = "try_block publish_down ex_job ex_world"
  let ?d = "try_block database_down ex_job ex_world"
  let ?o = "try_block ok_env ex_job ex_world"
  have a: "fst ?t = Inl ''ECONNRESET''"
    by (simp add: worker_defs example_defs Let_def)
  have b: "fst ?d = Inl ''ECONNREFUSED''" "inference_results (snd ?d) = []"
    by (simp_all add: worker_defs example_defs Let_def)
  have c: "fst ?o = Inr \<lparr>success = True, result_frameId = 1, inferenceId = 2,
             processingTime = 220,
             results = \<lparr>emotionLabel = ''happy'', emotionConf = Some (9 / 10),
                        rednessLabel = ''happy'', rednessConf = Some (9 / 10)\<rparr>\<rparr>"
    by (simp add: worker_defs example_defs Let_def)
  have a1: "?t = (Inl ''ECONNRESET'', snd ?t)" by (simp add: a [symmetric])
  have b1: "?d = (Inl ''ECONNREFUSED'', snd ?d)" by (simp add: b(1) [symmetric])
  have c1: "?o = (Inr (projr (fst ?o)), snd ?o)" by (simp add: c prod_eq_iff)
  have e: "create_error publish_down (sentinel_row publish_down ex_job) = None"
    "create_error database_down (sentinel_row database_down ex_job) \<noteq> None"
    "query_error scorer_down = None"
    "scorer scorer_down (s3Key ex_job) ''emotion-esmd2/2'' = Inl ''ETIMEDOUT''"
    "scorer scorer_down (s3Key ex_job) ''redness-of-eyes-aju4x/1'' = Inl ''ETIMEDOUT''"
    "publish_error ok_env = None"
    by (simp_all add: example_defs)
  note t1 = worker_raises_original_error [where ae = publish_down and j = ex_job
      and w = ex_world and err = "''ECONNRESET''" and ?w0.0 = "snd ?t"
      and r = "projr (fst ?o)" and ?w1.0 = ex_world and ?x1.0 = "[]" and ?x2.0 = "[]"]
  note t2 = worker_raises_original_error [where ae = database_down and j = ex_job
      and w = ex_world and err = "''ECONNREFUSED''" and ?w0.0 = "snd ?d"
      and r = "projr (fst ?o)" and ?w1.0 = ex_world and ?x1.0 = "[]" and ?x2.0 = "[]"]
  note t3 = worker_raises_original_error [where ae = ok_env and j = ex_job
      and w = ex_world and r = "projr (fst ?o)" and ?w1.0 = "snd ?o"
      and err = "[]" and ?w0.0 = ex_world and ?x1.0 = "[]" and ?x2.0 = "[]"]
  note t4 = worker_raises_original_error [where ae = scorer_down and j = ex_job
      and w = ex_world and ?x1.0 = "''ETIMEDOUT''" and ?x2.0 = "''ETIMEDOUT''"
      and err = "[]" and ?w0.0 = ex_world and r = "projr (fst ?o)" and ?w1.0 = ex_world]
  have r1: "fst (processInferenceJob publish_down ex_job ex_world) = Inl ''ECONNRESET''"
    "inference_results (snd (processInferenceJob publish_down ex_job ex_world))
       = inference_results (snd ?t) @ [sentinel_row publish_down ex_job]"
    using t1 a1 e(1) by simp_all
  have r2: "fst (processInferenceJob database_down ex_job ex_world) = Inl ''ECONNREFUSED''"
    "inference_results (snd (processInferenceJob database_down ex_job ex_world)) = []"
    "last (console (snd (processInferenceJob database_down ex_job ex_world)))
       = ''[InferenceWorker] Failed to log error:''"
    using t2 b1 e(2) b(2) by simp_all
  have r3: "fst ?o = fst (processInferenceJob ok_env ex_job ex_world)"
    using t3 c1 by simp
  have r4: "fst (processFrame scorer_down (frameId ex_job) (s3Key ex_job) ex_world)
     = Inr \<lparr>emotionLabel = ''Unknown'', emotionConf = None,
            rednessLabel = ''Unknown'', rednessConf = None\<rparr>"
    using t4 e(3,4,5) by simp
  show ?thesis
    using a b(1) e r1 r2 r3 r4 by simp
qed

text \<open>
  Claim C4 as stated fails for exceptions during scoring: both scoring calls raise, and
  the job returns a result, writes no sentinel row and marks the frame processed.
\<close>

theorem worker_counterexample:
  "scorer scorer_down (s3Key ex_job) ''emotion-esmd2/2'' = Inl ''ETIMEDOUT'' \<and>
   scorer scorer_down (s3Key ex_job) ''redness-of-eyes-aju4x/1'' = Inl ''ETIMEDOUT'' \<and>
   fst (processInferenceJob scorer_down ex_job ex_world)
     = Inr \<lparr>success = True, result_frameId = 1, inferenceId = 2, processingTime = 220,
            results = \<lparr>emotionLabel = ''Unknown'', emotionConf = None,
                       rednessLabel = ''Unknown'', rednessConf = None\<rparr>\<rparr> \<and>
   sentinel_count (snd (processInferenceJob scorer_down ex_job ex_world)) 1 = 0 \<and>
   processed (snd (processInferenceJob scorer_down ex_job ex_world)) 1"
  by (simp add: worker_defs example_defs Let_def)


end
